theory Spec2Isabelle
  imports Main "HOL-Library.AList" "HOL-Library.Finite_Map"
begin

section \<open>The credential vault behind keytar\<close>

text \<open>
  The vault of the operating system, as the three keytar calls the manager uses see it:
  a finite store of passwords keyed by service and account. \<open>getPassword\<close> answers
  \<open>None\<close> for JavaScript's \<open>null\<close>; \<open>deletePassword\<close> also reports whether an entry
  was there. JavaScript strings are sequences of code units; \<open>string\<close> stands for them.
\<close>

type_synonym vault = "(string \<times> string, string) fmap"

definition getPassword :: "vault \<Rightarrow> string \<Rightarrow> string \<Rightarrow> string option" where
  "getPassword v service account = fmlookup v (service, account)"

definition setPassword :: "vault \<Rightarrow> string \<Rightarrow> string \<Rightarrow> string \<Rightarrow> vault" where
  "setPassword v service account password = fmupd (service, account) password v"

definition deletePassword :: "vault \<Rightarrow> string \<Rightarrow> string \<Rightarrow> vault \<times> bool" where
  "deletePassword v service account =
     (fmdrop (service, account) v, fmlookup v (service, account) \<noteq> None)"

section \<open>Strings of the host language\<close>

definition NUL :: char where
  "NUL = CHR 0x00"

definition endsWith :: "string \<Rightarrow> string \<Rightarrow> bool" where
  "endsWith s suffix = (length suffix \<le> length s \<and> drop (length s - length suffix) s = suffix)"

text \<open>
  \<open>s.replace(pat, by)\<close> with a string pattern: only the first occurrence is replaced.
  (The replacements used here hold no \<open>$\<close>, so they are taken literally.)
\<close>

fun replaceFirst :: "string \<Rightarrow> string \<Rightarrow> string \<Rightarrow> string" where
  "replaceFirst [] pat by = (if pat = [] then by else [])"
| "replaceFirst (c # cs) pat by =
     (if take (length pat) (c # cs) = pat then by @ drop (length pat) (c # cs)
      else c # replaceFirst cs pat by)"

text \<open>\<open>value.replace(/\0$/, "")\<close>: one trailing NUL, if there is one, is removed.\<close>

definition stripNul :: "string \<Rightarrow> string" where
  "stripNul s = (if endsWith s [NUL] then butlast s else s)"

definition digitChar :: "nat \<Rightarrow> char" where
  "digitChar d = ''0123456789'' ! d"

fun showNat :: "nat \<Rightarrow> string" where
  "showNat n = (if n < 10 then [digitChar n] else showNat (n div 10) @ [digitChar (n mod 10)])"

declare showNat.simps [simp del]

text \<open>The template literal \<open>`${account}-${index}`\<close>.\<close>

definition chunkAccount :: "string \<Rightarrow> nat \<Rightarrow> string" where
  "chunkAccount account index = account @ ''-'' @ showNat index"

section \<open>DefaultCredentialManager\<close>

text \<open>
  An \<open>ImperativeError\<close> with the details the manager gives it; the option
  \<open>suppressReport\<close> of its constructor has no part here. \<open>keytar\<close> is the reference to the
  loaded module, \<open>None\<close> while it is \<open>null\<close>; the vault itself is passed to every method
  and returned by those that change it. A method that throws returns \<open>Inl\<close> of the error,
  and has then changed nothing in the vault.
\<close>

datatype ImperativeError = ImperativeError
  (msg: string) (causeErrors: "string option") (additionalDetails: "string option")

datatype keytar_module = Keytar

record manager =
  service :: string
  allServices :: "string list"
  keytar :: "keytar_module option"
  loadError :: "ImperativeError option"
  platform :: string

definition SVC_NAME :: string where
  "SVC_NAME = ''Zowe''"

definition WIN32_CRED_MAX_STRING_LENGTH :: nat where
  "WIN32_CRED_MAX_STRING_LENGTH = 2560"

text \<open>
  The constructor; \<open>process.platform\<close> of the running process is fixed with it.
\<close>

definition constructor :: "string \<Rightarrow> string \<Rightarrow> manager" where
  "constructor plat svc =
     \<lparr> service = svc,
       allServices = [svc] @ (if svc \<noteq> SVC_NAME then [SVC_NAME] else [])
                     @ [''@zowe/cli'', ''Zowe-Plugin'', ''Broadcom-Plugin''],
       keytar = None,
       loadError = None,
       platform = plat \<rparr>"

text \<open>
  \<open>initialize\<close>: the outcome of resolving and importing keytar is the argument,
  \<open>Inl cause\<close> when the \<open>try\<close> block threw \<open>cause\<close>. Nothing is thrown to the caller.
\<close>

definition initialize :: "manager \<Rightarrow> string + keytar_module \<Rightarrow> manager" where
  "initialize m imported =
     (case imported of
        Inr k \<Rightarrow> m\<lparr>keytar := Some k\<rparr>
      | Inl cause \<Rightarrow>
          m\<lparr>loadError := Some (ImperativeError ''Keytar not Installed'' (Some cause) None)\<rparr>)"

text \<open>\<open>checkForKeytar\<close>: the error it throws, if any.\<close>

definition checkForKeytar :: "manager \<Rightarrow> ImperativeError option" where
  "checkForKeytar m =
     (if keytar m = None then
        (case loadError m of
           None \<Rightarrow> Some (ImperativeError
                     ''Keytar was not properly loaded due to an unknown cause.'' None None)
         | Some e \<Rightarrow> Some e)
      else None)"

subsection \<open>Reading, also across several fields\<close>

text \<open>
  The \<open>do ... while\<close> loop of \<open>getCredentialsHelper\<close>. It has no bound of its own, so
  the result is an option: \<open>None\<close> is a loop that never ends, \<open>Some value\<close>
  the value it ends with (itself \<open>None\<close> for \<open>null\<close>).
\<close>

partial_function (option) readFields ::
  "vault \<Rightarrow> string \<Rightarrow> string \<Rightarrow> nat \<Rightarrow> string option \<Rightarrow> string option option" where
  "readFields v svc account index val =
     (let tempValue = getPassword v svc (chunkAccount account index);
          val' = (case tempValue of
                    None \<Rightarrow> val
                  | Some t \<Rightarrow> Some ((case val of None \<Rightarrow> [] | Some x \<Rightarrow> x) @ t))
      in if val' \<noteq> None \<and> \<not> endsWith (the val') [NUL]
         then readFields v svc account (index + 1) val'
         else Some val')"

text \<open>
  \<open>getCredentialsHelper\<close>: the single-field value, or on win32 the fields joined and
  the trailing NUL stripped.
\<close>

definition getCredentialsHelper ::
  "manager \<Rightarrow> vault \<Rightarrow> string \<Rightarrow> string \<Rightarrow> string option option" where
  "getCredentialsHelper m v svc account =
     (let val = getPassword v svc account in
      if val = None \<and> platform m = ''win32'' then
        (case readFields v svc account 1 None of
           None \<Rightarrow> None
         | Some val' \<Rightarrow> Some (map_option stripNul val'))
      else Some val)"

text \<open>The closure \<open>loadHelper\<close> of \<open>loadCredentials\<close>, for one service.\<close>

definition loadHelper ::
  "manager \<Rightarrow> vault \<Rightarrow> string \<Rightarrow> string \<Rightarrow> string option option" where
  "loadHelper m v account svc =
     (case getCredentialsHelper m v svc account of
        None \<Rightarrow> None
      | Some secureValue \<Rightarrow>
          (let secureValue1 =
                 (if secureValue = None \<and> endsWith account ''_username''
                  then getPassword v svc (replaceFirst account ''_username'' ''_user'')
                  else secureValue);
               secureValue2 =
                 (if secureValue1 = None \<and> endsWith account ''_pass''
                  then getPassword v svc (replaceFirst account ''_pass'' ''_password'')
                  else secureValue1)
           in Some secureValue2))"

text \<open>The \<open>for ... of this.allServices\<close> loop with its \<open>break\<close>.\<close>

fun loadServices ::
  "manager \<Rightarrow> vault \<Rightarrow> string \<Rightarrow> string list \<Rightarrow> string option option" where
  "loadServices m v account [] = Some None"
| "loadServices m v account (nextService # rest) =
     (case loadHelper m v account nextService of
        None \<Rightarrow> None
      | Some None \<Rightarrow> loadServices m v account rest
      | Some (Some secValue) \<Rightarrow> Some (Some secValue))"

text \<open>\<open>getMissingEntryMessage\<close>, with its loop over the services.\<close>

definition joinServices :: "string list \<Rightarrow> string" where
  "joinServices svcs = foldl (\<lambda>acc s. acc @ s @ '', '') ''  Service = '' svcs"

definition newline :: char where
  "newline = CHR 0x0A"

definition getMissingEntryMessage :: "manager \<Rightarrow> string \<Rightarrow> string" where
  "getMissingEntryMessage m account =
     (let listOfServices = joinServices (allServices m);
          listOfServices' = take (length listOfServices - 2) listOfServices
                            @ [newline] @ ''  Account = '' @ account @ [newline, newline]
      in ''Could not find an entry in the credential vault for the following:'' @ [newline]
         @ listOfServices'
         @ ''Possible Causes:'' @ [newline]
         @ ''  This could have been caused by any manual removal of credentials from your vault.''
         @ [newline, newline]
         @ ''Resolutions: '' @ [newline]
         @ ''  Recreate the credentials in the vault for the particular service in the vault.''
         @ [newline])"

text \<open>
  \<open>loadCredentials\<close>. A thrown error is \<open>Inl\<close>; the vault is only read. The line written
  to the log on success is not modelled.
\<close>

definition loadCredentials ::
  "manager \<Rightarrow> vault \<Rightarrow> string \<Rightarrow> bool \<Rightarrow> (ImperativeError + string option) option" where
  "loadCredentials m v account optional =
     (case checkForKeytar m of
        Some e \<Rightarrow> Some (Inl e)
      | None \<Rightarrow>
          (case loadServices m v account (allServices m) of
             None \<Rightarrow> None
           | Some secValue \<Rightarrow>
               if secValue = None \<and> \<not> optional
               then Some (Inl (ImperativeError ''Unable to load credentials.'' None
                                 (Some (getMissingEntryMessage m account))))
               else Some (Inr secValue)))"

subsection \<open>Deleting\<close>

text \<open>
  The loop of \<open>deleteCredentialsHelper\<close> over \<open>allServices\<close>; with \<open>keepCurrentSvc\<close> the
  entry of \<open>SVC_NAME\<close> is skipped.
\<close>

fun deleteServices :: "vault \<Rightarrow> string \<Rightarrow> bool \<Rightarrow> string list \<Rightarrow> bool \<Rightarrow> vault \<times> bool" where
  "deleteServices v account keepCurrentSvc [] wasDeleted = (v, wasDeleted)"
| "deleteServices v account keepCurrentSvc (svc # rest) wasDeleted =
     (if keepCurrentSvc \<and> svc = SVC_NAME
      then deleteServices v account keepCurrentSvc rest wasDeleted
      else (case deletePassword v svc account of
              (v', deleted) \<Rightarrow>
                deleteServices v' account keepCurrentSvc rest (if deleted then True else wasDeleted)))"

text \<open>
  \<open>while (await deletePassword(SVC_NAME, `${account}-${index}`)) index++\<close>; the result
  is the vault and the final index. Every turn removes an entry of a finite vault.
\<close>

function deleteFields :: "vault \<Rightarrow> string \<Rightarrow> nat \<Rightarrow> vault \<times> nat" where
  "deleteFields v account index =
     (case deletePassword v SVC_NAME (chunkAccount account index) of
        (v', deleted) \<Rightarrow> if deleted then deleteFields v' account (index + 1) else (v', index))"
  by pat_completeness auto
termination
  by (relation "measure (\<lambda>(v, account, index). card (fmdom' v))")
     (auto simp: deletePassword_def intro!: card_Diff1_less fmdom'I)

declare deleteFields.simps [simp del]

definition deleteCredentialsHelper :: "manager \<Rightarrow> vault \<Rightarrow> string \<Rightarrow> bool \<Rightarrow> vault \<times> bool" where
  "deleteCredentialsHelper m v account keepCurrentSvc =
     (case deleteServices v account keepCurrentSvc (allServices m) False of
        (v1, wasDeleted) \<Rightarrow>
          if platform m = ''win32'' then
            (case deleteFields v1 account 1 of
               (v2, index) \<Rightarrow> (v2, if index > 1 then True else wasDeleted))
          else (v1, wasDeleted))"

definition deleteCredentials :: "manager \<Rightarrow> vault \<Rightarrow> string \<Rightarrow> ImperativeError + vault" where
  "deleteCredentials m v account =
     (case checkForKeytar m of
        Some e \<Rightarrow> Inl e
      | None \<Rightarrow> Inr (fst (deleteCredentialsHelper m v account False)))"

subsection \<open>Saving, also across several fields\<close>

text \<open>
  The \<open>while\<close> loop of \<open>setCredentialsHelper\<close>, which writes the value in slices of
  \<open>WIN32_CRED_MAX_STRING_LENGTH\<close> characters.
\<close>

function writeFields :: "vault \<Rightarrow> string \<Rightarrow> string \<Rightarrow> string \<Rightarrow> nat \<Rightarrow> vault" where
  "writeFields v svc account val index =
     (if length val > 0 then
        (let tempValue = take WIN32_CRED_MAX_STRING_LENGTH val
         in writeFields (setPassword v svc (chunkAccount account index) tempValue) svc account
              (drop WIN32_CRED_MAX_STRING_LENGTH val) (index + 1))
      else v)"
  by pat_completeness auto
termination
  by (relation "measure (\<lambda>(v, svc, account, val, index). length val)")
     (auto simp: WIN32_CRED_MAX_STRING_LENGTH_def)

declare writeFields.simps [simp del]

definition setCredentialsHelper :: "manager \<Rightarrow> vault \<Rightarrow> string \<Rightarrow> string \<Rightarrow> string \<Rightarrow> vault" where
  "setCredentialsHelper m v svc account val =
     (if platform m = ''win32'' \<and> length val > WIN32_CRED_MAX_STRING_LENGTH then
        writeFields (fst (deletePassword v svc account)) svc account (val @ [NUL]) 1
      else setPassword v svc account val)"

definition saveCredentials ::
  "manager \<Rightarrow> vault \<Rightarrow> string \<Rightarrow> string \<Rightarrow> ImperativeError + vault" where
  "saveCredentials m v account credentials =
     (case checkForKeytar m of
        Some e \<Rightarrow> Inl e
      | None \<Rightarrow>
          Inr (setCredentialsHelper m (fst (deleteCredentialsHelper m v account True))
                 (service m) account credentials))"

section \<open>Auxiliary notions\<close>

text \<open>
  A string no cut of which, every \<open>WIN32_CRED_MAX_STRING_LENGTH\<close> characters, falls right
  after a NUL: the strings that the field scheme reads back whole.
\<close>

definition cleanCuts :: "string \<Rightarrow> bool" where
  "cleanCuts w \<longleftrightarrow> (\<forall>k. 0 < k \<and> k * WIN32_CRED_MAX_STRING_LENGTH < length w
                        \<longrightarrow> w ! (k * WIN32_CRED_MAX_STRING_LENGTH - 1) \<noteq> NUL)"

section \<open>Config: layers and the merged view\<close>

text \<open>
  \<open>Config\<close>, its layers, the merge and \<open>set\<close> are code of the repository of which only
  the tests are among the sources (\<open>Config tests\<close>). Every definition of this section and
  of the next is modelled from the spec: its data model (3), its description of the layers
  and of \<open>Config\<close> (4.2, 4.3) and its design notes (9).
\<close>

text \<open>
  Modelled from the spec: the generic tagged value (string, number, boolean, array,
  object) of a JSON document; \<open>Config.ts\<close> is missing.
\<close>

datatype jvalue =
    JNull
  | JBool bool
  | JNumber int
  | JString string
  | JArray "jvalue list"
  | JObject "(string \<times> jvalue) list"

text \<open>
  Modelled from the spec: a node of the \<open>profiles\<close> tree, with its optional \<open>type\<close>, its
  \<open>properties\<close> and its nested \<open>profiles\<close>; the declaration of the profile type is
  missing.
\<close>

datatype ProfileNode = ProfileNode
  (ptype: "string option")
  (pproperties: "(string \<times> jvalue) list")
  (pprofiles: "(string \<times> ProfileNode) list")

text \<open>
  Modelled from the spec: the document of a layer, the layer and the \<open>Config\<close> of the
  data model; their declarations are missing. The properties of a layer are a parameter
  of the layer type: the typed document here, for the merge, and the generic value for
  the dotted paths of \<open>set\<close>.
\<close>

record ConfigProperties =
  schema :: "string option"
  profiles :: "(string \<times> ProfileNode) list"
  defaults :: "(string \<times> string) list"
  plugins :: "string list"
  secure :: "string list"

text \<open>
  Modelled from the spec: one layer, with the path of its file, whether the file exists
  and its properties; the declaration of the layer is missing.
\<close>

record 'p ConfigLayer =
  path :: string
  exists :: bool
  properties :: 'p

text \<open>
  Modelled from the spec: the layers of a \<open>Config\<close>, highest precedence first, and the
  index of the active one; the class \<open>Config\<close> is missing.
\<close>

record 'p Config =
  layers :: "'p ConfigLayer list"
  activeLayerIndex :: nat

text \<open>
  Modelled from the spec: the empty skeleton of a layer whose file is absent; the layer
  loader is missing.
\<close>

definition emptySkeleton :: ConfigProperties where
  "emptySkeleton = \<lparr> schema = None, profiles = [], defaults = [], plugins = [], secure = [] \<rparr>"

text \<open>
  Modelled from the spec: loading one layer; the layer loader is missing. The argument is
  the parsed document of the file, \<open>None\<close> when there is no file at the path.
\<close>

definition loadLayer :: "string \<Rightarrow> ConfigProperties option \<Rightarrow> ConfigProperties ConfigLayer" where
  "loadLayer p file =
     (case file of
        None \<Rightarrow> \<lparr> path = p, exists = False, properties = emptySkeleton \<rparr>
      | Some props \<Rightarrow> \<lparr> path = p, exists = True, properties = props \<rparr>)"

text \<open>
  Modelled from the spec: \<open>Config.load\<close>, which is missing, builds the four layers,
  highest precedence first (project-user, project, global-user, global), each from its
  own file, and makes the first one active. The files are a function from paths to
  parsed documents; the search for the paths and the secure load are left out.
\<close>

definition load ::
  "(string \<Rightarrow> ConfigProperties option) \<Rightarrow> string \<Rightarrow> string \<Rightarrow> string \<Rightarrow> string
   \<Rightarrow> ConfigProperties Config" where
  "load files projectUserPath projectPath globalUserPath globalPath =
     \<lparr> layers = map (\<lambda>p. loadLayer p (files p))
                  [projectUserPath, projectPath, globalUserPath, globalPath],
       activeLayerIndex = 0 \<rparr>"

text \<open>
  Modelled from the spec: the merge of two mappings, the first of higher precedence: an
  entry of both keeps the value of the first. The merge of \<open>Config.ts\<close> is missing.
\<close>

definition mergeEntries :: "(string \<times> 'a) list \<Rightarrow> (string \<times> 'a) list \<Rightarrow> (string \<times> 'a) list" where
  "mergeEntries hi lo = hi @ filter (\<lambda>(k, _). map_of hi k = None) lo"

text \<open>
  Modelled from the spec: the deep merge of two \<open>profiles\<close> trees, the first of higher
  precedence; the merge of \<open>Config.ts\<close> is missing. A profile of both is merged node by
  node, and a property of both keeps the value of the first.
\<close>

fun mergeNode :: "ProfileNode \<Rightarrow> ProfileNode \<Rightarrow> ProfileNode"
  and mergeInto :: "(string \<times> ProfileNode) list \<Rightarrow> (string \<times> ProfileNode) list
                    \<Rightarrow> (string \<times> ProfileNode) list" where
  "mergeNode (ProfileNode t ps subs) lo =
     ProfileNode (case t of Some x \<Rightarrow> Some x | None \<Rightarrow> ptype lo)
       (mergeEntries ps (pproperties lo))
       (mergeInto subs (pprofiles lo) @ filter (\<lambda>(n, _). map_of subs n = None) (pprofiles lo))"
| "mergeInto [] lo = []"
| "mergeInto ((n, h) # hs) lo =
     (n, case map_of lo n of None \<Rightarrow> h | Some l \<Rightarrow> mergeNode h l) # mergeInto hs lo"

text \<open>
  Modelled from the spec: the merge of the \<open>profiles\<close> of two layers; the merge of
  \<open>Config.ts\<close> is missing.
\<close>

definition mergeProfiles :: "(string \<times> ProfileNode) list \<Rightarrow> (string \<times> ProfileNode) list
                    \<Rightarrow> (string \<times> ProfileNode) list" where
  "mergeProfiles hi lo = mergeInto hi lo @ filter (\<lambda>(n, _). map_of hi n = None) lo"

text \<open>
  Modelled from the spec: the \<open>profiles\<close> of the merged read view, computed from the
  layers in their order; the accessor of \<open>Config.ts\<close> is missing.
\<close>

definition mergedProfiles :: "ConfigProperties Config \<Rightarrow> (string \<times> ProfileNode) list" where
  "mergedProfiles c = foldr mergeProfiles (map (\<lambda>l. profiles (properties l)) (layers c)) []"

text \<open>
  Modelled from the spec: the \<open>defaults\<close> of the merged read view, merged as a shallow
  mapping; the accessor of \<open>Config.ts\<close> is missing.
\<close>

definition mergedDefaults :: "ConfigProperties Config \<Rightarrow> (string \<times> string) list" where
  "mergedDefaults c = foldr mergeEntries (map (\<lambda>l. defaults (properties l)) (layers c)) []"

text \<open>
  Modelled from the spec: a read in a \<open>profiles\<close> tree; the \<open>get\<close> of \<open>Config.ts\<close> is
  missing. A profile is found by the names of the nested profiles that lead to it.
\<close>

fun findProfile :: "(string \<times> ProfileNode) list \<Rightarrow> string list \<Rightarrow> ProfileNode option" where
  "findProfile ps [] = None"
| "findProfile ps [n] = map_of ps n"
| "findProfile ps (n # m # ms) =
     (case map_of ps n of None \<Rightarrow> None | Some nd \<Rightarrow> findProfile (pprofiles nd) (m # ms))"

text \<open>
  Modelled from the spec: a property of a profile is found by the profile and its key;
  the \<open>get\<close> of \<open>Config.ts\<close> is missing.
\<close>

definition getProperty :: "(string \<times> ProfileNode) list \<Rightarrow> string list \<Rightarrow> string \<Rightarrow> jvalue option" where
  "getProperty ps names key =
     (case findProfile ps names of None \<Rightarrow> None | Some nd \<Rightarrow> map_of (pproperties nd) key)"

section \<open>Config: set on a dotted path\<close>

text \<open>
  Modelled from the spec: the integer pattern of the coercion of \<open>set\<close>, which is
  missing. The spec names the pattern without spelling it; here it is an optional minus
  sign and one or more decimal digits.
\<close>

definition isDigit :: "char \<Rightarrow> bool" where
  "isDigit c = (c \<in> set ''0123456789'')"

text \<open>
  Modelled from the spec: the number that a string of the integer pattern stands for;
  the coercion of \<open>set\<close> is missing.
\<close>

definition digitValue :: "char \<Rightarrow> nat" where
  "digitValue c = of_char c - 48"

text \<open>
  Modelled from the spec: the number of a string of decimal digits; the coercion of
  \<open>set\<close> is missing.
\<close>

definition parseDigits :: "string \<Rightarrow> nat" where
  "parseDigits s = foldl (\<lambda>acc c. 10 * acc + digitValue c) 0 s"

text \<open>Modelled from the spec: the integer pattern; the coercion of \<open>set\<close> is missing.\<close>

definition isInteger :: "string \<Rightarrow> bool" where
  "isInteger s =
     (case s of
        [] \<Rightarrow> False
      | c # cs \<Rightarrow> if c = CHR ''-'' then cs \<noteq> [] \<and> list_all isDigit cs
                 else list_all isDigit (c # cs))"

text \<open>
  Modelled from the spec: the number of a string of the integer pattern; the coercion of
  \<open>set\<close> is missing.
\<close>

definition parseInt :: "string \<Rightarrow> int" where
  "parseInt s =
     (case s of
        [] \<Rightarrow> 0
      | c # cs \<Rightarrow> if c = CHR ''-'' then - int (parseDigits cs) else int (parseDigits (c # cs)))"

text \<open>
  Modelled from the spec: the coercion of a value passed to \<open>set\<close>, which is missing:
  \<open>"true"\<close> and \<open>"false"\<close> become booleans, a string of the integer pattern a number,
  and everything else stays.
\<close>

definition coerce :: "jvalue \<Rightarrow> jvalue" where
  "coerce v =
     (case v of
        JString s \<Rightarrow>
          if s = ''true'' then JBool True
          else if s = ''false'' then JBool False
          else if isInteger s then JNumber (parseInt s)
          else JString s
      | _ \<Rightarrow> v)"

text \<open>
  Modelled from the spec: a dotted path is the list of its segments; the path walk of
  \<open>set\<close> is missing.
\<close>

fun splitDots :: "string \<Rightarrow> string list" where
  "splitDots [] = [[]]"
| "splitDots (c # cs) =
     (if c = CHR ''.'' then [] # splitDots cs
      else (case splitDots cs of [] \<Rightarrow> [[c]] | s # ss \<Rightarrow> (c # s) # ss))"

text \<open>
  Modelled from the spec: the value at a path of segments, walking objects only; the
  path walk of \<open>Config.ts\<close> is missing.
\<close>

fun getPath :: "jvalue \<Rightarrow> string list \<Rightarrow> jvalue option" where
  "getPath node [] = Some node"
| "getPath (JObject kvs) (seg # rest) =
     (case map_of kvs seg of None \<Rightarrow> None | Some child \<Rightarrow> getPath child rest)"
| "getPath _ (seg # rest) = None"

text \<open>
  Modelled from the spec: what \<open>set\<close>, which is missing, stores at the last segment. An
  array value replaces the target; a scalar is coerced and appended when the target is an
  array, and replaces it otherwise.
\<close>

definition stored :: "jvalue option \<Rightarrow> jvalue \<Rightarrow> jvalue" where
  "stored current v =
     (case v of
        JArray xs \<Rightarrow> JArray xs
      | _ \<Rightarrow> (case current of
                Some (JArray ys) \<Rightarrow> JArray (ys @ [coerce v])
              | _ \<Rightarrow> coerce v))"

text \<open>
  Modelled from the spec: the entries of a node of the walk of \<open>set\<close>, which is missing;
  a node that is no object has none.
\<close>

definition fieldsOf :: "jvalue \<Rightarrow> (string \<times> jvalue) list" where
  "fieldsOf node = (case node of JObject kvs \<Rightarrow> kvs | _ \<Rightarrow> [])"

text \<open>
  Modelled from the spec: the next node of the walk of \<open>set\<close>, which is missing; an
  intermediate segment that is absent gets an empty object on demand.
\<close>

definition childOf :: "jvalue \<Rightarrow> string \<Rightarrow> jvalue" where
  "childOf node seg = (case map_of (fieldsOf node) seg of None \<Rightarrow> JObject [] | Some child \<Rightarrow> child)"

text \<open>
  Modelled from the spec: the walk of \<open>set\<close>, which is missing, along the segments of
  the path; a node that is no object is taken as an empty one.
\<close>

fun setPath :: "jvalue \<Rightarrow> string list \<Rightarrow> jvalue \<Rightarrow> jvalue" where
  "setPath node [] v = node"
| "setPath node [seg] v =
     JObject (AList.update seg (stored (map_of (fieldsOf node) seg) v) (fieldsOf node))"
| "setPath node (seg # next # rest) v =
     JObject (AList.update seg (setPath (childOf node seg) (next # rest) v) (fieldsOf node))"

text \<open>Modelled from the spec: the active layer; \<open>layerActive\<close> of \<open>Config.ts\<close> is missing.\<close>

definition layerActive :: "'p Config \<Rightarrow> 'p ConfigLayer" where
  "layerActive c = layers c ! activeLayerIndex c"

text \<open>
  Modelled from the spec: \<open>Config.set\<close>, which is missing, changes the properties of the
  active layer only. The option \<open>secure\<close> is left out.
\<close>

definition set_config :: "jvalue Config \<Rightarrow> string \<Rightarrow> jvalue \<Rightarrow> jvalue Config" where
  "set_config c dottedPath v =
     c\<lparr>layers := (layers c)[activeLayerIndex c :=
          (layerActive c)\<lparr>properties :=
             setPath (properties (layerActive c)) (splitDots dottedPath) v\<rparr>]\<rparr>"

section \<open>Properties of the credential manager\<close>

subsection \<open>Basic facts\<close>

lemma checkForKeytar_loaded: "keytar m \<noteq> None \<Longrightarrow> checkForKeytar m = None"
  by (auto simp: checkForKeytar_def)

lemma loadServices_all_null:
  "(\<forall>s\<in>set svcs. loadHelper m v account s = Some None) \<Longrightarrow> loadServices m v account svcs = Some None"
  by (induction svcs) auto

lemma loadServices_null_all:
  "loadServices m v account svcs = Some None \<Longrightarrow> (\<forall>s\<in>set svcs. loadHelper m v account s = Some None)"
  by (induction svcs) (auto split: option.splits)

lemma loadServices_first_hit:
  "(\<forall>s\<in>set pre. loadHelper m v account s = Some None) \<Longrightarrow>
   loadHelper m v account svc = Some (Some x) \<Longrightarrow>
   loadServices m v account (pre @ svc # post) = Some (Some x)"
  by (induction pre) auto

subsection \<open>A failed initialisation\<close>

text \<open>
  C5. When \<open>initialize\<close> cannot bind keytar on a manager that has none, it returns
  normally with the cause stored in \<open>loadError\<close>; from then on \<open>loadCredentials\<close>,
  \<open>saveCredentials\<close> and \<open>deleteCredentials\<close> all end in \<open>checkForKeytar\<close> with the
  stored error, which carries the cause, and no vault call is made.
\<close>

theorem initialize_failure_is_rethrown:
  assumes "keytar m = None"
  shows "loadError (initialize m (Inl cause)) =
           Some (ImperativeError ''Keytar not Installed'' (Some cause) None)
       \<and> loadCredentials (initialize m (Inl cause)) v account optional =
           Some (Inl (ImperativeError ''Keytar not Installed'' (Some cause) None))
       \<and> saveCredentials (initialize m (Inl cause)) v account credentials =
           Inl (ImperativeError ''Keytar not Installed'' (Some cause) None)
       \<and> deleteCredentials (initialize m (Inl cause)) v account =
           Inl (ImperativeError ''Keytar not Installed'' (Some cause) None)"
  using assms
  by (simp add: initialize_def checkForKeytar_def loadCredentials_def saveCredentials_def
        deleteCredentials_def)

theorem initialize_failure_is_rethrown_witness:
  "loadCredentials (initialize (constructor ''linux'' ''Zowe'') (Inl ''Cannot find module'')) fmempty
      ''acct'' True = Some (Inl (ImperativeError ''Keytar not Installed'' (Some ''Cannot find module'') None))
   \<and> saveCredentials (initialize (constructor ''linux'' ''Zowe'') (Inl ''Cannot find module'')) fmempty
      ''acct'' ''pw'' = Inl (ImperativeError ''Keytar not Installed'' (Some ''Cannot find module'') None)"
proof -
  have k: "keytar (constructor ''linux'' ''Zowe'') = None"
    by (simp add: constructor_def)
  show ?thesis
    using initialize_failure_is_rethrown [OF k, of "''Cannot find module''" fmempty "''acct''" True "''pw''"]
    by simp
qed


subsection \<open>The order of the services\<close>

text \<open>
  C4. \<open>loadCredentials\<close> walks \<open>allServices\<close> in order, the manager's own service
  first and the earlier services \<open>@zowe/cli\<close>, \<open>Zowe-Plugin\<close>, \<open>Broadcom-Plugin\<close> last
  (with \<open>Zowe\<close> second when the own service is another one), and returns the value of
  the first service whose lookup is not null.
\<close>

theorem load_returns_first_service_hit:
  assumes "m = initialize (constructor plat cur) (Inr Keytar)"
    and "allServices m = pre @ svc # post"
    and "\<forall>s\<in>set pre. loadHelper m v account s = Some None"
    and "loadHelper m v account svc = Some (Some x)"
  shows "loadCredentials m v account optional = Some (Inr (Some x))
       \<and> allServices m = cur # (if cur = SVC_NAME then [] else [SVC_NAME])
                          @ [''@zowe/cli'', ''Zowe-Plugin'', ''Broadcom-Plugin'']"
proof -
  have "keytar m \<noteq> None"
    using assms(1) by (simp add: initialize_def)
  then have "checkForKeytar m = None"
    by (rule checkForKeytar_loaded)
  moreover have "loadServices m v account (allServices m) = Some (Some x)"
    unfolding assms(2) using assms(3,4) by (rule loadServices_first_hit)
  moreover have "allServices m = cur # (if cur = SVC_NAME then [] else [SVC_NAME])
                          @ [''@zowe/cli'', ''Zowe-Plugin'', ''Broadcom-Plugin'']"
    using assms(1) by (simp add: initialize_def constructor_def)
  ultimately show ?thesis
    by (simp add: loadCredentials_def)
qed

theorem load_returns_first_service_hit_witness:
  "loadCredentials (initialize (constructor ''linux'' ''Zowe'') (Inr Keytar))
     (fmupd (''Zowe-Plugin'', ''acct'') ''old'' (fmupd (''Broadcom-Plugin'', ''acct'') ''older'' fmempty))
     ''acct'' False = Some (Inr (Some ''old''))"
proof -
  let ?m = "initialize (constructor ''linux'' ''Zowe'') (Inr Keytar)"
  let ?v = "fmupd (''Zowe-Plugin'', ''acct'') ''old'' (fmupd (''Broadcom-Plugin'', ''acct'') ''older'' fmempty)"
  have a: "allServices ?m = [''Zowe'', ''@zowe/cli''] @ ''Zowe-Plugin'' # [''Broadcom-Plugin'']"
    by (simp add: initialize_def constructor_def SVC_NAME_def)
  have b: "\<forall>s\<in>set [''Zowe'', ''@zowe/cli'']. loadHelper ?m ?v ''acct'' s = Some None"
    by (simp add: loadHelper_def getCredentialsHelper_def getPassword_def endsWith_def
          initialize_def constructor_def)
  have c: "loadHelper ?m ?v ''acct'' ''Zowe-Plugin'' = Some (Some ''old'')"
    by (simp add: loadHelper_def getCredentialsHelper_def getPassword_def endsWith_def
          initialize_def constructor_def)
  show ?thesis
    using load_returns_first_service_hit [OF refl a b c, of False] by simp
qed

subsection \<open>The loop over the fields\<close>

lemma endsWith_single: "endsWith s [c] \<longleftrightarrow> s \<noteq> [] \<and> last s = c"
proof (cases s rule: rev_cases)
  case Nil
  then show ?thesis by (simp add: endsWith_def)
next
  case (snoc ys y)
  then show ?thesis by (auto simp: endsWith_def)
qed

lemma endsWith_append_single:
  "endsWith (x @ t) [c] \<longleftrightarrow> (if t = [] then endsWith x [c] else endsWith t [c])"
  by (simp add: endsWith_single)

lemma readFields_stops:
  assumes "getPassword v svc (chunkAccount account n) = Some t"
    and "endsWith t [NUL]"
    and "index \<le> n"
  shows "readFields v svc account index val \<noteq> None"
  using assms(3)
proof (induction "n - index" arbitrary: index val)
  case 0
  then have "index = n" by simp
  then show ?case
    using assms(1,2)
    by (subst readFields.simps) (simp add: endsWith_append_single endsWith_single)
next
  case (Suc k)
  then have "k = n - (index + 1)" and "index + 1 \<le> n"
    by simp_all
  then have "readFields v svc account (index + 1) val' \<noteq> None" for val'
    using Suc.hyps(1) by blast
  then show ?case
    by (subst readFields.simps) (simp add: Let_def)
qed

lemma readFields_result:
  assumes "readFields v svc account index val = Some r"
  shows "r = None \<or> (\<exists>x. val = Some x \<and> endsWith x [NUL])
   \<or> (\<exists>n t. index \<le> n \<and> getPassword v svc (chunkAccount account n) = Some t \<and> endsWith t [NUL])"
proof (rule readFields.raw_induct [where P = "\<lambda>v svc account index val r.
    r = None \<or> (\<exists>x. val = Some x \<and> endsWith x [NUL])
    \<or> (\<exists>n t. index \<le> n \<and> getPassword v svc (chunkAccount account n) = Some t \<and> endsWith t [NUL])",
    OF _ assms], goal_cases)
  case (1 rf v svc account index val r)
  let ?val' = "case getPassword v svc (chunkAccount account index) of
                 None \<Rightarrow> val
               | Some t \<Rightarrow> Some ((case val of None \<Rightarrow> [] | Some x \<Rightarrow> x) @ t)"
  show ?case
  proof (cases "?val' \<noteq> None \<and> \<not> endsWith (the ?val') [NUL]")
    case True
    with 1(2) have "rf v svc account (index + 1) ?val' = Some r"
      by (simp add: Let_def)
    from 1(1) [OF this] True show ?thesis
      by (auto dest: Suc_leD)
  next
    case False
    with 1(2) have r: "r = ?val'"
      by (auto simp: Let_def)
    show ?thesis
    proof (cases "getPassword v svc (chunkAccount account index)")
      case None
      with r False show ?thesis by auto
    next
      case (Some t)
      with r False have e: "endsWith ((case val of None \<Rightarrow> [] | Some x \<Rightarrow> x) @ t) [NUL]"
        by simp
      show ?thesis
      proof (cases "t = []")
        case True
        with e show ?thesis
          by (cases val) (auto simp: endsWith_single)
      next
        case False
        with e have "endsWith t [NUL]"
          by (simp add: endsWith_append_single)
        with Some show ?thesis by blast
      qed
    qed
  qed
qed

lemma readFields_keeps_value:
  assumes "readFields v svc account index val = Some r"
  shows "val \<noteq> None \<longrightarrow> r \<noteq> None"
proof (rule readFields.raw_induct [where P = "\<lambda>v svc account index val r.
    val \<noteq> None \<longrightarrow> r \<noteq> None", OF _ assms], goal_cases)
  case (1 rf v svc account index val r)
  then show ?case
    by (auto simp: Let_def split: if_splits option.splits)
qed

lemma readFields_null_first:
  assumes "readFields v svc account index None = Some None"
  shows "getPassword v svc (chunkAccount account index) = None"
proof (rule ccontr)
  assume "getPassword v svc (chunkAccount account index) \<noteq> None"
  then obtain t where t: "getPassword v svc (chunkAccount account index) = Some t"
    by blast
  from assms show False
    apply (subst (asm) readFields.simps)
    apply (simp add: t Let_def split: if_splits)
    apply (drule readFields_keeps_value)
    apply simp
    done
qed

lemma readFields_first_missing:
  "getPassword v svc (chunkAccount account index) = None \<Longrightarrow>
   readFields v svc account index None = Some None"
  by (subst readFields.simps) simp

lemma readFields_terminates_iff:
  "readFields v svc account 1 None \<noteq> None \<longleftrightarrow>
     getPassword v svc (chunkAccount account 1) = None
     \<or> (\<exists>n t. 1 \<le> n \<and> getPassword v svc (chunkAccount account n) = Some t \<and> endsWith t [NUL])"
  (is "?L \<longleftrightarrow> ?A \<or> ?B")
proof
  assume ?L
  then obtain r where r: "readFields v svc account 1 None = Some r"
    by blast
  show "?A \<or> ?B"
  proof (cases r)
    case None
    with r show ?thesis
      by (auto dest: readFields_null_first)
  next
    case (Some x)
    with readFields_result [OF r] show ?thesis
      by auto
  qed
next
  assume "?A \<or> ?B"
  then show ?L
    by (auto simp: readFields_first_missing dest: readFields_stops)
qed

lemma readFields_ends_on_unbroken_run:
  assumes "1 \<le> n"
    and "\<forall>i. 1 \<le> i \<and> i \<le> n \<longrightarrow> getPassword v svc (chunkAccount account i) \<noteq> None"
    and "endsWith (the (getPassword v svc (chunkAccount account n))) [NUL]"
  shows "readFields v svc account 1 None \<noteq> None"
proof -
  from assms(1,2) obtain t where t: "getPassword v svc (chunkAccount account n) = Some t"
    by blast
  with assms(3) have "endsWith t [NUL]"
    by simp
  with t show ?thesis
    using assms(1) by (rule readFields_stops)
qed

text \<open>
  C10 (amended). On win32 and without a single-field entry, the loop of
  \<open>getCredentialsHelper\<close> ends exactly when field 1 is missing or some field, at any
  index, ends with NUL. A missing field is skipped, not the end of the sequence: the
  terminator may come after a gap. With field 1 present and no field ending with NUL the
  loop runs forever.
\<close>

theorem getCredentialsHelper_terminates_iff:
  assumes "platform m = ''win32''"
    and "getPassword v svc account = None"
  shows "getCredentialsHelper m v svc account \<noteq> None \<longleftrightarrow>
           getPassword v svc (chunkAccount account 1) = None
           \<or> (\<exists>n t. 1 \<le> n \<and> getPassword v svc (chunkAccount account n) = Some t
                      \<and> endsWith t [NUL])"
proof -
  have "getCredentialsHelper m v svc account \<noteq> None \<longleftrightarrow> readFields v svc account 1 None \<noteq> None"
    using assms by (simp add: getCredentialsHelper_def split: option.splits)
  then show ?thesis
    by (simp only: readFields_terminates_iff)
qed

theorem getCredentialsHelper_terminates_iff_witness:
  "getCredentialsHelper (initialize (constructor ''win32'' ''Zowe'') (Inr Keytar))
     (fmupd (''Zowe'', ''a-1'') ''x'' fmempty) ''Zowe'' ''a'' = None"
proof -
  let ?m = "initialize (constructor ''win32'' ''Zowe'') (Inr Keytar)"
  let ?v = "fmupd (''Zowe'', ''a-1'') ''x'' fmempty"
  have p: "platform ?m = ''win32''"
    by (simp add: initialize_def constructor_def)
  have g: "getPassword ?v ''Zowe'' ''a'' = None"
    by (simp add: getPassword_def)
  have c1: "getPassword ?v ''Zowe'' (chunkAccount ''a'' 1) = Some ''x''"
    by (simp add: getPassword_def chunkAccount_def showNat.simps digitChar_def)
  have nt: "\<not> endsWith t [NUL]" if "getPassword ?v ''Zowe'' (chunkAccount ''a'' n) = Some t" for n t
    using that by (auto simp: getPassword_def endsWith_single NUL_def split: if_splits)
  show ?thesis
    using getCredentialsHelper_terminates_iff [OF p g] c1 nt by auto
qed

text \<open>
  The claim as stated fails: field 1 has no terminator and field 2 is missing, so the
  terminator does not come before the first missing index, yet the loop ends, with the
  terminator of field 3.
\<close>

theorem skipped_field_counterexample:
  "getPassword (fmupd (''Zowe'', ''a-1'') ''x'' (fmupd (''Zowe'', ''a-3'') [CHR ''y'', NUL] fmempty))
      ''Zowe'' (chunkAccount ''a'' 1) = Some ''x''
   \<and> \<not> endsWith ''x'' [NUL]
   \<and> getPassword (fmupd (''Zowe'', ''a-1'') ''x'' (fmupd (''Zowe'', ''a-3'') [CHR ''y'', NUL] fmempty))
      ''Zowe'' (chunkAccount ''a'' 2) = None
   \<and> getCredentialsHelper (initialize (constructor ''win32'' ''Zowe'') (Inr Keytar))
      (fmupd (''Zowe'', ''a-1'') ''x'' (fmupd (''Zowe'', ''a-3'') [CHR ''y'', NUL] fmempty))
      ''Zowe'' ''a'' = Some (Some ''xy'')"
  by (simp add: getCredentialsHelper_def readFields.simps getPassword_def chunkAccount_def
        showNat.simps digitChar_def endsWith_def NUL_def stripNul_def initialize_def constructor_def)

subsection \<open>Required and optional reads\<close>

lemma loadHelper_null:
  assumes "getPassword v svc account = None"
    and "platform m = ''win32'' \<longrightarrow> getPassword v svc (chunkAccount account 1) = None"
    and "endsWith account ''_username'' \<longrightarrow>
           getPassword v svc (replaceFirst account ''_username'' ''_user'') = None"
    and "endsWith account ''_pass'' \<longrightarrow>
           getPassword v svc (replaceFirst account ''_pass'' ''_password'') = None"
  shows "loadHelper m v account svc = Some None"
proof -
  have "getCredentialsHelper m v svc account = Some None"
    using assms(1,2) by (auto simp: getCredentialsHelper_def readFields_first_missing)
  then show ?thesis
    using assms(3,4) by (auto simp: loadHelper_def)
qed

lemma loadHelper_null_iff:
  "loadHelper m v account svc = Some None \<longleftrightarrow>
     getPassword v svc account = None
     \<and> (platform m = ''win32'' \<longrightarrow> getPassword v svc (chunkAccount account 1) = None)
     \<and> (endsWith account ''_username'' \<longrightarrow>
           getPassword v svc (replaceFirst account ''_username'' ''_user'') = None)
     \<and> (endsWith account ''_pass'' \<longrightarrow>
           getPassword v svc (replaceFirst account ''_pass'' ''_password'') = None)"
  (is "?L \<longleftrightarrow> ?R")
proof
  assume ?R
  then show ?L by (intro loadHelper_null) simp_all
next
  assume l: ?L
  then have g: "getCredentialsHelper m v svc account = Some None"
    by (auto simp: loadHelper_def split: option.splits if_splits)
  then have p: "getPassword v svc account = None"
    by (auto simp: getCredentialsHelper_def Let_def split: option.splits if_splits)
  have f: "getPassword v svc (chunkAccount account 1) = None" if "platform m = ''win32''"
    using g p that
    by (auto simp: getCredentialsHelper_def Let_def split: option.splits dest: readFields_null_first)
  from l g p f show ?R
    by (auto simp: loadHelper_def Let_def split: if_splits)
qed

text \<open>
  C6. With keytar bound, a required load (\<open>optional\<close> false) throws the
  "Unable to load credentials." error exactly when no service of \<open>allServices\<close> has a
  value for the account: no single entry, on win32 no first field, and no entry under the
  legacy name that is retried; it throws nothing else. An optional load returns null
  exactly then, and never throws.
\<close>

theorem required_load_fails_iff_no_entry:
  assumes "keytar m \<noteq> None"
  shows "(loadCredentials m v account False =
            Some (Inl (ImperativeError ''Unable to load credentials.'' None
                         (Some (getMissingEntryMessage m account))))
          \<longleftrightarrow> (\<forall>s\<in>set (allServices m).
                 getPassword v s account = None
                 \<and> (platform m = ''win32'' \<longrightarrow> getPassword v s (chunkAccount account 1) = None)
                 \<and> (endsWith account ''_username'' \<longrightarrow>
                       getPassword v s (replaceFirst account ''_username'' ''_user'') = None)
                 \<and> (endsWith account ''_pass'' \<longrightarrow>
                       getPassword v s (replaceFirst account ''_pass'' ''_password'') = None)))
       \<and> (loadCredentials m v account True = Some (Inr None)
          \<longleftrightarrow> (\<forall>s\<in>set (allServices m).
                 getPassword v s account = None
                 \<and> (platform m = ''win32'' \<longrightarrow> getPassword v s (chunkAccount account 1) = None)
                 \<and> (endsWith account ''_username'' \<longrightarrow>
                       getPassword v s (replaceFirst account ''_username'' ''_user'') = None)
                 \<and> (endsWith account ''_pass'' \<longrightarrow>
                       getPassword v s (replaceFirst account ''_pass'' ''_password'') = None)))
       \<and> (\<forall>e. loadCredentials m v account False = Some (Inl e) \<longrightarrow>
               e = ImperativeError ''Unable to load credentials.'' None
                         (Some (getMissingEntryMessage m account)))
       \<and> (\<forall>e. loadCredentials m v account True \<noteq> Some (Inl e))"
proof -
  have c: "checkForKeytar m = None"
    using assms by (rule checkForKeytar_loaded)
  have n: "loadServices m v account (allServices m) = Some None
           \<longleftrightarrow> (\<forall>s\<in>set (allServices m). loadHelper m v account s = Some None)"
    using loadServices_all_null loadServices_null_all by blast
  show ?thesis
    unfolding loadHelper_null_iff [symmetric] n [symmetric]
    by (auto simp: loadCredentials_def c split: option.splits)
qed

theorem required_load_fails_iff_no_entry_witness:
  "loadCredentials (initialize (constructor ''linux'' ''Zowe'') (Inr Keytar)) fmempty ''acct'' False
     = Some (Inl (ImperativeError ''Unable to load credentials.'' None
          (Some (getMissingEntryMessage (initialize (constructor ''linux'' ''Zowe'') (Inr Keytar)) ''acct''))))
   \<and> loadCredentials (initialize (constructor ''linux'' ''Zowe'') (Inr Keytar)) fmempty ''acct'' True
     = Some (Inr None)"
proof -
  let ?m = "initialize (constructor ''linux'' ''Zowe'') (Inr Keytar)"
  have k: "keytar ?m \<noteq> None"
    by (simp add: initialize_def)
  have n: "\<forall>s\<in>set (allServices ?m).
             getPassword fmempty s ''acct'' = None
             \<and> (platform ?m = ''win32'' \<longrightarrow> getPassword fmempty s (chunkAccount ''acct'' 1) = None)
             \<and> (endsWith ''acct'' ''_username'' \<longrightarrow>
                   getPassword fmempty s (replaceFirst ''acct'' ''_username'' ''_user'') = None)
             \<and> (endsWith ''acct'' ''_pass'' \<longrightarrow>
                   getPassword fmempty s (replaceFirst ''acct'' ''_pass'' ''_password'') = None)"
    by (simp add: getPassword_def)
  show ?thesis
    using required_load_fails_iff_no_entry [OF k, of fmempty "''acct''"] n by blast
qed

subsection \<open>Field names, writing and reading back\<close>

lemma digitChar_inj: "a < 10 \<Longrightarrow> b < 10 \<Longrightarrow> digitChar a = digitChar b \<Longrightarrow> a = b"
proof -
  assume a: "a < 10" and b: "b < 10" and e: "digitChar a = digitChar b"
  have d: "distinct ''0123456789''" by simp
  have "length ''0123456789'' = 10" by simp
  with a b e d show "a = b"
    unfolding digitChar_def by (metis nth_eq_iff_index_eq)
qed

lemma showNat_nonempty: "showNat n \<noteq> []"
  by (subst showNat.simps) simp

lemma showNat_inj: "showNat a = showNat b \<Longrightarrow> a = b"
proof (induction a arbitrary: b rule: showNat.induct)
  case (1 n)
  show ?case
  proof (cases "n < 10")
    case True
    show ?thesis
    proof (cases "b < 10")
      case b: True
      from 1(2) True b have "digitChar n = digitChar b"
        by (simp add: showNat.simps)
      with True b show ?thesis by (rule digitChar_inj)
    next
      case b: False
      from 1(2) True b have "[digitChar n] = showNat (b div 10) @ [digitChar (b mod 10)]"
        by (simp add: showNat.simps [of n] showNat.simps [of b])
      then show ?thesis
        using showNat_nonempty [of "b div 10"] by simp
    qed
  next
    case False
    show ?thesis
    proof (cases "b < 10")
      case b: True
      from 1(2) False b have "showNat (n div 10) @ [digitChar (n mod 10)] = [digitChar b]"
        by (simp add: showNat.simps [of n] showNat.simps [of b])
      then show ?thesis
        using showNat_nonempty [of "n div 10"] by simp
    next
      case b: False
      from 1(2) False b
      have "showNat (n div 10) @ [digitChar (n mod 10)] = showNat (b div 10) @ [digitChar (b mod 10)]"
        by (simp add: showNat.simps [of n] showNat.simps [of b])
      then have e: "showNat (n div 10) = showNat (b div 10)"
        and d: "digitChar (n mod 10) = digitChar (b mod 10)"
        by simp_all
      from 1(1) [OF False e] have "n div 10 = b div 10" .
      moreover from d have "n mod 10 = b mod 10"
        by (intro digitChar_inj) simp_all
      ultimately show ?thesis
        by (metis div_mult_mod_eq)
    qed
  qed
qed

lemma chunkAccount_inj [simp]: "chunkAccount account i = chunkAccount account j \<longleftrightarrow> i = j"
  by (auto simp: chunkAccount_def dest: showNat_inj)

lemma chunkAccount_neq [simp]: "chunkAccount account i \<noteq> account" "account \<noteq> chunkAccount account i"
  by (simp_all add: chunkAccount_def)

lemma writeFields_other:
  "(\<And>j. index \<le> j \<Longrightarrow> k \<noteq> (svc, chunkAccount account j)) \<Longrightarrow>
   fmlookup (writeFields v svc account val index) k = fmlookup v k"
proof (induction v svc account val index rule: writeFields.induct)
  case (1 v svc account val index)
  show ?case
  proof (cases "length val > 0")
    case True
    have "fmlookup (writeFields (setPassword v svc (chunkAccount account index)
             (take WIN32_CRED_MAX_STRING_LENGTH val)) svc account
             (drop WIN32_CRED_MAX_STRING_LENGTH val) (index + 1)) k
          = fmlookup (setPassword v svc (chunkAccount account index)
             (take WIN32_CRED_MAX_STRING_LENGTH val)) k"
      using True 1(2) by (intro 1(1)) simp_all
    also have "\<dots> = fmlookup v k"
      using 1(2) [of index] by (auto simp: setPassword_def)
    finally show ?thesis
      using True by (subst writeFields.simps) (simp add: Let_def)
  next
    case False
    then show ?thesis
      by (subst writeFields.simps) simp
  qed
qed

lemma writeFields_first:
  assumes "val \<noteq> []"
  shows "fmlookup (writeFields v svc account val index) (svc, chunkAccount account index)
         = Some (take WIN32_CRED_MAX_STRING_LENGTH val)"
proof -
  have "writeFields v svc account val index
        = writeFields (setPassword v svc (chunkAccount account index)
             (take WIN32_CRED_MAX_STRING_LENGTH val)) svc account
             (drop WIN32_CRED_MAX_STRING_LENGTH val) (index + 1)"
    using assms by (subst writeFields.simps) (simp add: Let_def)
  then show ?thesis
    by (simp add: writeFields_other setPassword_def)
qed

lemma cleanCuts_drop: "cleanCuts w \<Longrightarrow> cleanCuts (drop WIN32_CRED_MAX_STRING_LENGTH w)"
  unfolding cleanCuts_def
proof (intro allI impI)
  fix k
  assume c: "\<forall>k. 0 < k \<and> k * WIN32_CRED_MAX_STRING_LENGTH < length w
                        \<longrightarrow> w ! (k * WIN32_CRED_MAX_STRING_LENGTH - 1) \<noteq> NUL"
    and k: "0 < k \<and> k * WIN32_CRED_MAX_STRING_LENGTH < length (drop WIN32_CRED_MAX_STRING_LENGTH w)"
  from k have "Suc k * WIN32_CRED_MAX_STRING_LENGTH < length w"
    by (simp add: less_diff_conv add.commute)
  with c have "w ! (Suc k * WIN32_CRED_MAX_STRING_LENGTH - 1) \<noteq> NUL"
    by blast
  moreover have "WIN32_CRED_MAX_STRING_LENGTH + (k * WIN32_CRED_MAX_STRING_LENGTH - 1)
                 = Suc k * WIN32_CRED_MAX_STRING_LENGTH - 1"
    using k by (cases k) (simp_all add: WIN32_CRED_MAX_STRING_LENGTH_def)
  moreover have "drop WIN32_CRED_MAX_STRING_LENGTH w ! (k * WIN32_CRED_MAX_STRING_LENGTH - 1)
                 = w ! (WIN32_CRED_MAX_STRING_LENGTH + (k * WIN32_CRED_MAX_STRING_LENGTH - 1))"
    using k by (intro nth_drop) (cases "WIN32_CRED_MAX_STRING_LENGTH \<le> length w", simp_all)
  ultimately show "drop WIN32_CRED_MAX_STRING_LENGTH w ! (k * WIN32_CRED_MAX_STRING_LENGTH - 1) \<noteq> NUL"
    by simp
qed

lemma read_fields_of_value:
  assumes "val \<noteq> []" and "last val = NUL" and "cleanCuts val"
    and "\<forall>k. k * WIN32_CRED_MAX_STRING_LENGTH < length val \<longrightarrow>
           getPassword V svc (chunkAccount account (index + k))
           = Some (take WIN32_CRED_MAX_STRING_LENGTH (drop (k * WIN32_CRED_MAX_STRING_LENGTH) val))"
  shows "readFields V svc account index acc
         = Some (Some ((case acc of None \<Rightarrow> [] | Some x \<Rightarrow> x) @ val))"
  using assms
proof (induction val arbitrary: index acc rule: length_induct)
  case (1 val)
  let ?M = WIN32_CRED_MAX_STRING_LENGTH
  let ?a = "case acc of None \<Rightarrow> [] | Some x \<Rightarrow> x"
  have M: "0 < ?M" by (simp add: WIN32_CRED_MAX_STRING_LENGTH_def)
  have "0 * ?M < length val" using 1(2) by simp
  with 1(5) have "getPassword V svc (chunkAccount account (index + 0)) = Some (take ?M (drop (0 * ?M) val))"
    by blast
  then have first: "getPassword V svc (chunkAccount account index) = Some (take ?M val)"
    by simp
  have ne: "take ?M val \<noteq> []"
    using 1(2) M by simp
  show ?case
  proof (cases "length val \<le> ?M")
    case True
    then have "take ?M val = val" by simp
    with first 1(2,3) show ?thesis
      by (subst readFields.simps) (simp add: endsWith_append_single endsWith_single)
  next
    case False
    then have "1 * ?M < length val" by simp
    with 1(4) have "val ! (1 * ?M - 1) \<noteq> NUL"
      unfolding cleanCuts_def by blast
    moreover have "last (take ?M val) = val ! (?M - 1)"
      using False M ne by (simp add: last_conv_nth)
    ultimately have nl: "last (take ?M val) \<noteq> NUL" by simp
    have d: "drop ?M val \<noteq> []" using False by simp
    then have l: "last (drop ?M val) = NUL" using 1(3) by simp
    have shorter: "length (drop ?M val) < length val"
      using 1(2) M by simp
    have rest: "\<forall>k. k * ?M < length (drop ?M val) \<longrightarrow>
           getPassword V svc (chunkAccount account (index + 1 + k))
           = Some (take ?M (drop (k * ?M) (drop ?M val)))"
    proof (intro allI impI)
      fix k
      assume "k * ?M < length (drop ?M val)"
      then have "Suc k * ?M < length val"
        by (simp add: less_diff_conv add.commute)
      with 1(5) have "getPassword V svc (chunkAccount account (index + Suc k))
                      = Some (take ?M (drop (Suc k * ?M) val))"
        by blast
      then show "getPassword V svc (chunkAccount account (index + 1 + k))
           = Some (take ?M (drop (k * ?M) (drop ?M val)))"
        by (simp add: add.commute)
    qed
    have "readFields V svc account (index + 1) (Some (?a @ take ?M val))
          = Some (Some ((case Some (?a @ take ?M val) of None \<Rightarrow> [] | Some x \<Rightarrow> x) @ drop ?M val))"
      using 1(1) shorter d l cleanCuts_drop [OF 1(4)] rest by blast
    then show ?thesis
      using first ne nl
      by (subst readFields.simps) (simp add: endsWith_append_single endsWith_single)
  qed
qed


lemma writeFields_nth:
  "k * WIN32_CRED_MAX_STRING_LENGTH < length val \<Longrightarrow>
   fmlookup (writeFields v svc account val index) (svc, chunkAccount account (index + k))
   = Some (take WIN32_CRED_MAX_STRING_LENGTH (drop (k * WIN32_CRED_MAX_STRING_LENGTH) val))"
proof (induction k arbitrary: v val index)
  case 0
  then show ?case by (simp add: writeFields_first)
next
  case (Suc k)
  let ?M = WIN32_CRED_MAX_STRING_LENGTH
  from Suc.prems have ne: "val \<noteq> []" by auto
  from Suc.prems have "k * ?M < length (drop ?M val)"
    by (simp add: less_diff_conv add.commute)
  from Suc.IH [OF this, of "setPassword v svc (chunkAccount account index) (take ?M val)" "index + 1"]
  show ?case
    using ne by (subst writeFields.simps) (simp add: Let_def add.commute)
qed

lemma read_after_write:
  assumes "val \<noteq> []" and "last val = NUL" and "cleanCuts val"
  shows "readFields (writeFields v svc account val index) svc account index acc
         = Some (Some ((case acc of None \<Rightarrow> [] | Some x \<Rightarrow> x) @ val))"
  using assms by (intro read_fields_of_value) (simp_all add: getPassword_def writeFields_nth)

lemma cleanCuts_terminated:
  assumes "\<forall>k. 0 < k \<and> k * WIN32_CRED_MAX_STRING_LENGTH \<le> length c
             \<longrightarrow> c ! (k * WIN32_CRED_MAX_STRING_LENGTH - 1) \<noteq> NUL"
  shows "cleanCuts (c @ [NUL])"
  unfolding cleanCuts_def
proof (intro allI impI)
  fix k
  assume k: "0 < k \<and> k * WIN32_CRED_MAX_STRING_LENGTH < length (c @ [NUL])"
  then have le: "k * WIN32_CRED_MAX_STRING_LENGTH \<le> length c" by simp
  have "0 < k * WIN32_CRED_MAX_STRING_LENGTH"
    using k by (simp add: WIN32_CRED_MAX_STRING_LENGTH_def)
  with le have "k * WIN32_CRED_MAX_STRING_LENGTH - 1 < length c" by arith
  then have "(c @ [NUL]) ! (k * WIN32_CRED_MAX_STRING_LENGTH - 1)
             = c ! (k * WIN32_CRED_MAX_STRING_LENGTH - 1)"
    by (simp add: nth_append)
  with assms k le show "(c @ [NUL]) ! (k * WIN32_CRED_MAX_STRING_LENGTH - 1) \<noteq> NUL"
    by simp
qed

lemma no_NUL_clean:
  assumes "NUL \<notin> set c"
  shows "\<forall>k. 0 < k \<and> k * WIN32_CRED_MAX_STRING_LENGTH \<le> length c
             \<longrightarrow> c ! (k * WIN32_CRED_MAX_STRING_LENGTH - 1) \<noteq> NUL"
proof (intro allI impI)
  fix k
  assume k: "0 < k \<and> k * WIN32_CRED_MAX_STRING_LENGTH \<le> length c"
  then have "0 < k * WIN32_CRED_MAX_STRING_LENGTH"
    by (simp add: WIN32_CRED_MAX_STRING_LENGTH_def)
  with k have "k * WIN32_CRED_MAX_STRING_LENGTH - 1 < length c" by arith
  then have "c ! (k * WIN32_CRED_MAX_STRING_LENGTH - 1) \<in> set c"
    by (rule nth_mem)
  with assms show "c ! (k * WIN32_CRED_MAX_STRING_LENGTH - 1) \<noteq> NUL"
    by metis
qed

lemma stripNul_snoc [simp]: "stripNul (c @ [NUL]) = c"
  by (simp add: stripNul_def endsWith_single)

lemma getCredentialsHelper_fields:
  assumes "platform m = ''win32''"
    and "cleanCuts (c @ [NUL])"
  shows "getCredentialsHelper m
           (writeFields (fst (deletePassword v svc account)) svc account (c @ [NUL]) 1) svc account
         = Some (Some c)"
proof -
  let ?V = "writeFields (fst (deletePassword v svc account)) svc account (c @ [NUL]) 1"
  have "getPassword ?V svc account = None"
    by (simp add: getPassword_def writeFields_other deletePassword_def)
  moreover have "readFields ?V svc account 1 None = Some (Some (c @ [NUL]))"
    using assms(2) by (simp add: read_after_write)
  ultimately show ?thesis
    using assms(1) by (simp add: getCredentialsHelper_def)
qed

lemma loadCredentials_own_service:
  assumes "m = initialize (constructor plat svc) (Inr Keytar)"
    and "getCredentialsHelper m v svc account = Some (Some x)"
  shows "loadCredentials m v account optional = Some (Inr (Some x))"
proof -
  have "loadHelper m v account svc = Some (Some x)"
    using assms(2) by (simp add: loadHelper_def)
  moreover have "\<exists>rest. allServices m = svc # rest"
    using assms(1) by (simp add: initialize_def constructor_def)
  moreover have "checkForKeytar m = None"
    using assms(1) by (simp add: checkForKeytar_def initialize_def)
  ultimately show ?thesis
    by (auto simp: loadCredentials_def)
qed


text \<open>
  C1 (amended). On win32, for a value longer than \<open>WIN32_CRED_MAX_STRING_LENGTH\<close> in
  which no character just before a cut (the characters number 2560, 5120, ...) is NUL,
  \<open>saveCredentials\<close> leaves no single-field entry and stores the value with a final NUL in
  the fields \<open>account-1\<close>, \<open>account-2\<close>, ... of the manager's service, and
  \<open>loadCredentials\<close> then returns the value as it was.
\<close>

theorem long_value_round_trip:
  assumes "m = initialize (constructor ''win32'' svc) (Inr Keytar)"
    and "WIN32_CRED_MAX_STRING_LENGTH < length credentials"
    and "\<forall>k. 0 < k \<and> k * WIN32_CRED_MAX_STRING_LENGTH \<le> length credentials
             \<longrightarrow> credentials ! (k * WIN32_CRED_MAX_STRING_LENGTH - 1) \<noteq> NUL"
  shows "\<exists>v'. saveCredentials m v account credentials = Inr v'
            \<and> loadCredentials m v' account optional = Some (Inr (Some credentials))
            \<and> getPassword v' svc account = None
            \<and> (\<forall>k. k * WIN32_CRED_MAX_STRING_LENGTH < length (credentials @ [NUL]) \<longrightarrow>
                  getPassword v' svc (chunkAccount account (1 + k))
                  = Some (take WIN32_CRED_MAX_STRING_LENGTH
                            (drop (k * WIN32_CRED_MAX_STRING_LENGTH) (credentials @ [NUL]))))"
proof -
  let ?v1 = "fst (deleteCredentialsHelper m v account True)"
  let ?V = "writeFields (fst (deletePassword ?v1 svc account)) svc account (credentials @ [NUL]) 1"
  have p: "platform m = ''win32''" and s: "service m = svc" and k: "checkForKeytar m = None"
    using assms(1) by (simp_all add: initialize_def constructor_def checkForKeytar_def)
  have save: "saveCredentials m v account credentials = Inr ?V"
    using p s k assms(2) by (simp add: saveCredentials_def setCredentialsHelper_def)
  have "getCredentialsHelper m ?V svc account = Some (Some credentials)"
    using p cleanCuts_terminated [OF assms(3)] by (rule getCredentialsHelper_fields)
  with assms(1) have load: "loadCredentials m ?V account optional = Some (Inr (Some credentials))"
    by (rule loadCredentials_own_service)
  have plain: "getPassword ?V svc account = None"
    by (simp add: getPassword_def writeFields_other deletePassword_def)
  have fields: "getPassword ?V svc (chunkAccount account (1 + k))
                  = Some (take WIN32_CRED_MAX_STRING_LENGTH
                            (drop (k * WIN32_CRED_MAX_STRING_LENGTH) (credentials @ [NUL])))"
    if "k * WIN32_CRED_MAX_STRING_LENGTH < length (credentials @ [NUL])" for k
    using that unfolding getPassword_def by (rule writeFields_nth)
  from save load plain fields show ?thesis
    by blast
qed

theorem long_value_round_trip_witness:
  "\<exists>v'. saveCredentials (initialize (constructor ''win32'' ''Zowe'') (Inr Keytar)) fmempty
           ''acct'' (replicate 2561 (CHR ''s'')) = Inr v'
      \<and> loadCredentials (initialize (constructor ''win32'' ''Zowe'') (Inr Keytar)) v' ''acct'' False
          = Some (Inr (Some (replicate 2561 (CHR ''s''))))"
proof -
  have l: "WIN32_CRED_MAX_STRING_LENGTH < length (replicate 2561 (CHR ''s''))"
    by (simp add: WIN32_CRED_MAX_STRING_LENGTH_def)
  have c: "\<forall>k. 0 < k \<and> k * WIN32_CRED_MAX_STRING_LENGTH \<le> length (replicate 2561 (CHR ''s''))
             \<longrightarrow> replicate 2561 (CHR ''s'') ! (k * WIN32_CRED_MAX_STRING_LENGTH - 1) \<noteq> NUL"
    by (rule no_NUL_clean) (simp add: NUL_def)
  show ?thesis
    using long_value_round_trip [where svc = "''Zowe''" and v = fmempty and account = "''acct''"
        and optional = False, OF refl l c] by blast
qed

lemma saveCredentials_long:
  assumes "m = initialize (constructor ''win32'' svc) (Inr Keytar)"
    and "WIN32_CRED_MAX_STRING_LENGTH < length c"
  shows "saveCredentials m v account c
         = Inr (writeFields (fst (deletePassword (fst (deleteCredentialsHelper m v account True))
                  svc account)) svc account (c @ [NUL]) 1)"
  using assms
  by (simp add: saveCredentials_def setCredentialsHelper_def initialize_def constructor_def
        checkForKeytar_def)

lemma read_stops_at_first_terminator:
  assumes "val \<noteq> []"
    and "last (take WIN32_CRED_MAX_STRING_LENGTH val) = NUL"
  shows "readFields (writeFields v svc account val index) svc account index None
         = Some (Some (take WIN32_CRED_MAX_STRING_LENGTH val))"
proof -
  have "getPassword (writeFields v svc account val index) svc (chunkAccount account index)
        = Some (take WIN32_CRED_MAX_STRING_LENGTH val)"
    using assms(1) by (simp add: getPassword_def writeFields_first)
  moreover have "take WIN32_CRED_MAX_STRING_LENGTH val \<noteq> []"
    using assms(1) by (simp add: WIN32_CRED_MAX_STRING_LENGTH_def)
  ultimately show ?thesis
    using assms(2) by (subst readFields.simps) (simp add: endsWith_single)
qed

text \<open>
  The claim as stated fails for a value with a NUL just before the first cut: the loop
  takes that NUL for the terminator and returns the first 2559 characters only.
\<close>

theorem terminator_inside_value_counterexample:
  "WIN32_CRED_MAX_STRING_LENGTH < length (replicate 2559 (CHR ''s'') @ [NUL, CHR ''t''])
   \<and> loadCredentials (initialize (constructor ''win32'' ''Zowe'') (Inr Keytar))
       (projr (saveCredentials (initialize (constructor ''win32'' ''Zowe'') (Inr Keytar)) fmempty
                 ''acct'' (replicate 2559 (CHR ''s'') @ [NUL, CHR ''t''])))
       ''acct'' True
     = Some (Inr (Some (replicate 2559 (CHR ''s''))))
   \<and> replicate 2559 (CHR ''s'') \<noteq> replicate 2559 (CHR ''s'') @ [NUL, CHR ''t'']"
proof -
  let ?m = "initialize (constructor ''win32'' ''Zowe'') (Inr Keytar)"
  let ?c = "replicate 2559 (CHR ''s'') @ [NUL, CHR ''t'']"
  let ?B = "fst (deletePassword (fst (deleteCredentialsHelper ?m fmempty ''acct'' True))
                  ''Zowe'' ''acct'')"
  let ?V = "writeFields ?B ''Zowe'' ''acct'' (?c @ [NUL]) 1"
  have l: "WIN32_CRED_MAX_STRING_LENGTH < length ?c"
    by (simp add: WIN32_CRED_MAX_STRING_LENGTH_def)
  have save: "saveCredentials ?m fmempty ''acct'' ?c = Inr ?V"
    using refl l by (rule saveCredentials_long)
  have t: "take WIN32_CRED_MAX_STRING_LENGTH (?c @ [NUL]) = replicate 2559 (CHR ''s'') @ [NUL]"
    by (simp add: WIN32_CRED_MAX_STRING_LENGTH_def)
  have "readFields ?V ''Zowe'' ''acct'' 1 None
        = Some (Some (take WIN32_CRED_MAX_STRING_LENGTH (?c @ [NUL])))"
    by (rule read_stops_at_first_terminator) (simp, simp only: t last_snoc)
  then have r: "readFields ?V ''Zowe'' ''acct'' 1 None = Some (Some (replicate 2559 (CHR ''s'') @ [NUL]))"
    by (simp only: t)
  have g: "getPassword ?V ''Zowe'' ''acct'' = None"
    by (simp add: getPassword_def writeFields_other deletePassword_def)
  have p: "platform ?m = ''win32''"
    by (simp add: initialize_def constructor_def)
  have "getCredentialsHelper ?m ?V ''Zowe'' ''acct'' = Some (Some (replicate 2559 (CHR ''s'')))"
    unfolding getCredentialsHelper_def Let_def g p r by simp
  with refl have "loadCredentials ?m ?V ''acct'' True = Some (Inr (Some (replicate 2559 (CHR ''s''))))"
    by (rule loadCredentials_own_service)
  with l save show ?thesis
    by simp
qed

subsection \<open>What deleting and saving leave behind\<close>

lemma deleteServices_lookup:
  "fmlookup (fst (deleteServices v account keep svcs wd)) k
   = (if \<exists>s\<in>set svcs. k = (s, account) \<and> \<not> (keep \<and> s = SVC_NAME) then None else fmlookup v k)"
  by (induction svcs arbitrary: v wd) (auto simp: deletePassword_def)

lemma deleteFields_other_service:
  "s \<noteq> SVC_NAME \<Longrightarrow> fmlookup (fst (deleteFields v account index)) (s, a) = fmlookup v (s, a)"
proof (induction v account index rule: deleteFields.induct)
  case (1 v account index)
  then show ?case
    by (subst deleteFields.simps) (auto simp: deletePassword_def)
qed

lemma deleteFields_only_removes:
  "fmlookup (fst (deleteFields v account index)) k = None
   \<or> fmlookup (fst (deleteFields v account index)) k = fmlookup v k"
proof (induction v account index rule: deleteFields.induct)
  case (1 v account index)
  show ?case
  proof (cases "fmlookup v (SVC_NAME, chunkAccount account index) = None")
    case True
    then show ?thesis
      by (subst (1 2) deleteFields.simps) (simp add: deletePassword_def fmdrop_idle' fmdom'_notI)
  next
    case False
    then have e: "deleteFields v account index
          = deleteFields (fmdrop (SVC_NAME, chunkAccount account index) v) account (index + 1)"
      by (subst deleteFields.simps) (simp add: deletePassword_def)
    from 1 [of "fmdrop (SVC_NAME, chunkAccount account index) v" True] False
    show ?thesis
      unfolding e by (auto simp: deletePassword_def split: if_splits)
  qed
qed

lemma deleteFields_plain:
  "fmlookup (fst (deleteFields v account index)) (s, account) = fmlookup v (s, account)"
proof (induction v account index rule: deleteFields.induct)
  case (1 v account index)
  then show ?case
    by (subst deleteFields.simps) (auto simp: deletePassword_def)
qed

lemma deleteFields_run:
  "(\<forall>j. index \<le> j \<and> j < index + n \<longrightarrow> fmlookup v (SVC_NAME, chunkAccount account j) \<noteq> None) \<Longrightarrow>
   index \<le> j \<Longrightarrow> j \<le> index + n \<Longrightarrow>
   fmlookup (fst (deleteFields v account index)) (SVC_NAME, chunkAccount account j) = None"
proof (induction n arbitrary: v index)
  case 0
  then have "j = index" by simp
  show ?case
  proof (cases "fmlookup v (SVC_NAME, chunkAccount account index) = None")
    case True
    then show ?thesis
      unfolding \<open>j = index\<close> by (subst deleteFields.simps) (simp add: deletePassword_def)
  next
    case False
    then have e: "deleteFields v account index
          = deleteFields (fmdrop (SVC_NAME, chunkAccount account index) v) account (index + 1)"
      by (subst deleteFields.simps) (simp add: deletePassword_def)
    show ?thesis
      using deleteFields_only_removes [of "fmdrop (SVC_NAME, chunkAccount account index) v" account "index + 1"
          "(SVC_NAME, chunkAccount account index)"]
      unfolding e \<open>j = index\<close> by auto
  qed
next
  case (Suc n)
  from Suc.prems(1) have here: "fmlookup v (SVC_NAME, chunkAccount account index) \<noteq> None"
    by simp
  then have e: "deleteFields v account index
          = deleteFields (fmdrop (SVC_NAME, chunkAccount account index) v) account (index + 1)"
    by (subst deleteFields.simps) (simp add: deletePassword_def)
  show ?case
  proof (cases "j = index")
    case True
    show ?thesis
      using deleteFields_only_removes [of "fmdrop (SVC_NAME, chunkAccount account index) v" account "index + 1"
          "(SVC_NAME, chunkAccount account index)"]
      unfolding e True by auto
  next
    case False
    with Suc.prems have j: "index + 1 \<le> j" "j \<le> index + 1 + n"
      by simp_all
    have "\<forall>j. index + 1 \<le> j \<and> j < index + 1 + n \<longrightarrow>
            fmlookup (fmdrop (SVC_NAME, chunkAccount account index) v) (SVC_NAME, chunkAccount account j) \<noteq> None"
      using Suc.prems(1) by auto
    from Suc.IH [OF this j] show ?thesis
      unfolding e .
  qed
qed

lemma ready_fields:
  assumes "m = initialize (constructor plat svc) (Inr Keytar)"
  shows "platform m = plat" and "service m = svc" and "checkForKeytar m = None"
    and "allServices m = svc # (if svc = SVC_NAME then [] else [SVC_NAME])
                          @ [''@zowe/cli'', ''Zowe-Plugin'', ''Broadcom-Plugin'']"
  using assms by (simp_all add: initialize_def constructor_def checkForKeytar_def)

lemma deleteCredentialsHelper_fst:
  "fst (deleteCredentialsHelper m v account keep)
   = (if platform m = ''win32''
      then fst (deleteFields (fst (deleteServices v account keep (allServices m) False)) account 1)
      else fst (deleteServices v account keep (allServices m) False))"
  by (simp add: deleteCredentialsHelper_def split: prod.splits)

lemma deleteCredentialsHelper_other_service:
  "s \<noteq> SVC_NAME \<Longrightarrow>
   fmlookup (fst (deleteCredentialsHelper m v account keep)) (s, a)
   = (if a = account \<and> s \<in> set (allServices m) then None else fmlookup v (s, a))"
  by (auto simp: deleteCredentialsHelper_fst deleteFields_other_service deleteServices_lookup)

lemma deleteCredentialsHelper_first_field:
  "platform m = ''win32'' \<Longrightarrow>
   fmlookup (fst (deleteCredentialsHelper m v account keep)) (SVC_NAME, chunkAccount account 1) = None"
  using deleteFields_run [of 1 0 _ account 1]
  by (simp add: deleteCredentialsHelper_fst)

lemma setCredentialsHelper_other_service:
  "s \<noteq> svc \<Longrightarrow> fmlookup (setCredentialsHelper m v svc account c) (s, a) = fmlookup v (s, a)"
  by (simp add: setCredentialsHelper_def writeFields_other deletePassword_def setPassword_def)

lemma getCredentialsHelper_plain:
  "getPassword v svc account = Some x \<Longrightarrow> getCredentialsHelper m v svc account = Some (Some x)"
  by (simp add: getCredentialsHelper_def)


text \<open>
  For a manager of the built-in service \<open>Zowe\<close>, \<open>saveCredentials\<close> writes nothing under
  another service and removes the account's single entry under every other service of
  \<open>allServices\<close>. Under \<open>Zowe\<close> the single entry then holds the new value, with the first
  field gone on win32; for a long value on win32 there is no single entry and the first
  field holds the first slice. Fields of other services, and fields after a gap, are not
  touched.
\<close>

lemma save_leaves_one_entry:
  assumes "m = initialize (constructor plat SVC_NAME) (Inr Keytar)"
  shows "\<exists>v'. saveCredentials m v account credentials = Inr v'
     \<and> (\<forall>s a. s \<noteq> service m \<longrightarrow>
           getPassword v' s a
           = (if a = account \<and> s \<in> set (allServices m) then None else getPassword v s a))
     \<and> (if plat = ''win32'' \<and> WIN32_CRED_MAX_STRING_LENGTH < length credentials
        then getPassword v' (service m) account = None
           \<and> getPassword v' (service m) (chunkAccount account 1)
             = Some (take WIN32_CRED_MAX_STRING_LENGTH (credentials @ [NUL]))
        else getPassword v' (service m) account = Some credentials
           \<and> loadCredentials m v' account optional = Some (Inr (Some credentials))
           \<and> (plat = ''win32'' \<longrightarrow> getPassword v' (service m) (chunkAccount account 1) = None))"
proof -
  note r = ready_fields [OF assms]
  let ?v1 = "fst (deleteCredentialsHelper m v account True)"
  let ?V = "setCredentialsHelper m ?v1 SVC_NAME account credentials"
  have save: "saveCredentials m v account credentials = Inr ?V"
    by (simp add: saveCredentials_def r)
  have others: "getPassword ?V s a
           = (if a = account \<and> s \<in> set (allServices m) then None else getPassword v s a)"
    if "s \<noteq> service m" for s a
    using that
    by (simp add: getPassword_def r(2) setCredentialsHelper_other_service
          deleteCredentialsHelper_other_service)
  have own: "if plat = ''win32'' \<and> WIN32_CRED_MAX_STRING_LENGTH < length credentials
        then getPassword ?V (service m) account = None
           \<and> getPassword ?V (service m) (chunkAccount account 1)
             = Some (take WIN32_CRED_MAX_STRING_LENGTH (credentials @ [NUL]))
        else getPassword ?V (service m) account = Some credentials
           \<and> loadCredentials m ?V account optional = Some (Inr (Some credentials))
           \<and> (plat = ''win32'' \<longrightarrow> getPassword ?V (service m) (chunkAccount account 1) = None)"
  proof (cases "plat = ''win32'' \<and> WIN32_CRED_MAX_STRING_LENGTH < length credentials")
    case True
    then have V: "?V = writeFields (fst (deletePassword ?v1 SVC_NAME account)) SVC_NAME account
                         (credentials @ [NUL]) 1"
      by (simp add: setCredentialsHelper_def r)
    show ?thesis
      using True unfolding V r(2)
      by (simp add: getPassword_def writeFields_other deletePassword_def writeFields_first)
  next
    case False
    then have V: "?V = setPassword ?v1 SVC_NAME account credentials"
      by (auto simp: setCredentialsHelper_def r)
    have p: "getPassword ?V SVC_NAME account = Some credentials"
      unfolding V by (simp add: getPassword_def setPassword_def)
    then have "getCredentialsHelper m ?V SVC_NAME account = Some (Some credentials)"
      by (rule getCredentialsHelper_plain)
    with assms have l: "loadCredentials m ?V account optional = Some (Inr (Some credentials))"
      by (rule loadCredentials_own_service)
    have f: "getPassword ?V SVC_NAME (chunkAccount account 1) = None" if "plat = ''win32''"
    proof -
      from that r(1) have "platform m = ''win32''" by simp
      from deleteCredentialsHelper_first_field [OF this, of v account True] show ?thesis
        unfolding V by (simp add: getPassword_def setPassword_def)
    qed
    from False p l f show ?thesis
      unfolding r(2) by auto
  qed
  from save others own show ?thesis
    by blast
qed

lemma save_leaves_one_entry_example:
  "\<exists>v'. saveCredentials (initialize (constructor ''linux'' SVC_NAME) (Inr Keytar))
           (fmupd (''@zowe/cli'', ''acct'') ''old'' fmempty) ''acct'' ''new'' = Inr v'
      \<and> getPassword v' ''@zowe/cli'' ''acct'' = None
      \<and> getPassword v' SVC_NAME ''acct'' = Some ''new''"
proof -
  let ?m = "initialize (constructor ''linux'' SVC_NAME) (Inr Keytar)"
  have s: "service ?m = SVC_NAME" "''@zowe/cli'' \<noteq> SVC_NAME" "''@zowe/cli'' \<in> set (allServices ?m)"
    "\<not> (''linux'' = ''win32'' \<and> WIN32_CRED_MAX_STRING_LENGTH < length ''new'')"
    by (simp_all add: initialize_def constructor_def SVC_NAME_def)
  show ?thesis
    using save_leaves_one_entry [OF refl, of "''linux''" "fmupd (''@zowe/cli'', ''acct'') ''old'' fmempty"
        "''acct''" "''new''" False] s
    by (auto split: if_splits)
qed


text \<open>
  C3. \<open>saveCredentials\<close> is to write under the manager's service only and to leave no
  older entry of the account under any service. \<open>deleteCredentialsHelper\<close>, called
  with \<open>keepCurrentSvc\<close>, keeps the entry of \<open>SVC_NAME\<close> where the entry of the manager's
  service is meant, the one that \<open>setCredentialsHelper\<close> then writes. For a manager of
  the service \<open>Custom\<close> the old entry under \<open>Zowe\<close>, a service of \<open>allServices\<close>, stays
  beside the new one under \<open>Custom\<close>.
\<close>

theorem save_keeps_entry_under_SVC_NAME:
  "''Zowe'' \<in> set (allServices (initialize (constructor ''linux'' ''Custom'') (Inr Keytar)))
   \<and> ''Zowe'' \<noteq> service (initialize (constructor ''linux'' ''Custom'') (Inr Keytar))
   \<and> getPassword (projr (saveCredentials (initialize (constructor ''linux'' ''Custom'') (Inr Keytar))
         (fmupd (''Zowe'', ''acct'') ''old'' fmempty) ''acct'' ''new'')) ''Zowe'' ''acct'' = Some ''old''
   \<and> getPassword (projr (saveCredentials (initialize (constructor ''linux'' ''Custom'') (Inr Keytar))
         (fmupd (''Zowe'', ''acct'') ''old'' fmempty) ''acct'' ''new'')) ''Custom'' ''acct'' = Some ''new''"
  by (simp add: initialize_def constructor_def SVC_NAME_def saveCredentials_def checkForKeytar_def
        deleteCredentialsHelper_def deletePassword_def setCredentialsHelper_def setPassword_def
        getPassword_def)

subsection \<open>Deleting a value stored across fields\<close>

lemma writeFields_beyond:
  "length val \<le> k * WIN32_CRED_MAX_STRING_LENGTH \<Longrightarrow>
   fmlookup (writeFields v svc account val index) (svc, chunkAccount account (index + k))
   = fmlookup v (svc, chunkAccount account (index + k))"
proof (induction v svc account val index arbitrary: k rule: writeFields.induct)
  case (1 v svc account val index)
  show ?case
  proof (cases "length val > 0")
    case False
    then show ?thesis by (subst writeFields.simps) simp
  next
    case True
    with 1(2) obtain k' where k: "k = Suc k'"
      by (cases k) auto
    with 1(2) have "length (drop WIN32_CRED_MAX_STRING_LENGTH val) \<le> k' * WIN32_CRED_MAX_STRING_LENGTH"
      by simp
    from 1(1) [OF True refl this] show ?thesis
      using True unfolding k
      by (subst writeFields.simps) (simp add: Let_def setPassword_def)
  qed
qed

lemma writeFields_unwritten:
  assumes "\<And>i. i * WIN32_CRED_MAX_STRING_LENGTH < length val \<Longrightarrow> k \<noteq> (svc, chunkAccount account (index + i))"
  shows "fmlookup (writeFields v svc account val index) k = fmlookup v k"
proof (cases "\<exists>j. index \<le> j \<and> k = (svc, chunkAccount account j)")
  case False
  then show ?thesis
    by (intro writeFields_other) blast
next
  case True
  then obtain i where i: "k = (svc, chunkAccount account (index + i))"
    by (metis le_Suc_ex)
  have "\<not> i * WIN32_CRED_MAX_STRING_LENGTH < length val"
    using assms [of i] i by blast
  then have "length val \<le> i * WIN32_CRED_MAX_STRING_LENGTH"
    by simp
  then show ?thesis
    unfolding i by (rule writeFields_beyond)
qed

lemma deleteFields_upto:
  assumes "\<forall>i. index \<le> i \<and> i \<le> j \<longrightarrow> fmlookup v (SVC_NAME, chunkAccount account i) \<noteq> None"
    and "index \<le> j"
  shows "fmlookup (fst (deleteFields v account index)) (SVC_NAME, chunkAccount account j) = None"
proof -
  have "\<forall>i. index \<le> i \<and> i < index + (j - index) \<longrightarrow> fmlookup v (SVC_NAME, chunkAccount account i) \<noteq> None"
    using assms by auto
  from deleteFields_run [OF this assms(2)] assms(2) show ?thesis
    by simp
qed

lemma deleteCredentialsHelper_only_removes:
  "fmlookup (fst (deleteCredentialsHelper m v account keep)) k = None
   \<or> fmlookup (fst (deleteCredentialsHelper m v account keep)) k = fmlookup v k"
proof -
  let ?D = "fst (deleteServices v account keep (allServices m) False)"
  have chain: "x = None \<or> x = d \<Longrightarrow> d = None \<or> d = w \<Longrightarrow> x = None \<or> x = w"
    for x d w :: "string option"
    by auto
  have D: "fmlookup ?D k = None \<or> fmlookup ?D k = fmlookup v k"
    by (simp add: deleteServices_lookup)
  show ?thesis
  proof (cases "platform m = ''win32''")
    case True
    then have e: "fst (deleteCredentialsHelper m v account keep) = fst (deleteFields ?D account 1)"
      by (simp add: deleteCredentialsHelper_fst)
    show ?thesis
      unfolding e using deleteFields_only_removes D by (rule chain)
  next
    case False
    then have e: "fst (deleteCredentialsHelper m v account keep) = ?D"
      by (simp add: deleteCredentialsHelper_fst)
    show ?thesis
      unfolding e by (rule D)
  qed
qed

lemma deleteCredentialsHelper_plain:
  "s \<in> set (allServices m) \<Longrightarrow>
   fmlookup (fst (deleteCredentialsHelper m v account False)) (s, account) = None"
  by (auto simp: deleteCredentialsHelper_fst deleteFields_plain deleteServices_lookup)

lemma loadCredentials_none:
  assumes "checkForKeytar m = None"
    and "\<forall>s\<in>set (allServices m). loadHelper m v account s = Some None"
  shows "loadCredentials m v account True = Some (Inr None)"
  using assms by (simp add: loadCredentials_def loadServices_all_null)


text \<open>
  For a manager of the built-in service \<open>Zowe\<close> on win32, after a long value was saved,
  \<open>deleteCredentials\<close> removes every field the save wrote and the account's entry under
  every service, and adds nothing; the manager's own service then has no value for the
  account. A following optional load returns null when, besides, the vault held no first
  field of the account under another service and no entry under the legacy names that
  \<open>loadHelper\<close> retries.
\<close>

lemma delete_removes_all_fields:
  assumes "m = initialize (constructor ''win32'' SVC_NAME) (Inr Keytar)"
    and "WIN32_CRED_MAX_STRING_LENGTH < length credentials"
  shows "\<exists>v1 v2. saveCredentials m v account credentials = Inr v1
     \<and> deleteCredentials m v1 account = Inr v2
     \<and> (\<forall>k. k * WIN32_CRED_MAX_STRING_LENGTH < length (credentials @ [NUL]) \<longrightarrow>
           getPassword v1 SVC_NAME (chunkAccount account (1 + k)) \<noteq> None
           \<and> getPassword v2 SVC_NAME (chunkAccount account (1 + k)) = None)
     \<and> (\<forall>s\<in>set (allServices m). getPassword v2 s account = None)
     \<and> (\<forall>s a. getPassword v2 s a = None \<or> getPassword v2 s a = getPassword v s a)
     \<and> getCredentialsHelper m v2 SVC_NAME account = Some None
     \<and> ((\<forall>s\<in>set (allServices m).
            (s \<noteq> SVC_NAME \<longrightarrow> getPassword v s (chunkAccount account 1) = None)
            \<and> (endsWith account ''_username'' \<longrightarrow>
                 getPassword v s (replaceFirst account ''_username'' ''_user'') = None)
            \<and> (endsWith account ''_pass'' \<longrightarrow>
                 getPassword v s (replaceFirst account ''_pass'' ''_password'') = None))
         \<longrightarrow> loadCredentials m v2 account True = Some (Inr None))"
proof -
  let ?M = WIN32_CRED_MAX_STRING_LENGTH
  let ?w = "credentials @ [NUL]"
  note r = ready_fields [OF assms(1)]
  let ?v0 = "fst (deleteCredentialsHelper m v account True)"
  let ?B = "fst (deletePassword ?v0 SVC_NAME account)"
  let ?v1 = "writeFields ?B SVC_NAME account ?w 1"
  let ?D = "fst (deleteServices ?v1 account False (allServices m) False)"
  let ?v2 = "fst (deleteCredentialsHelper m ?v1 account False)"
  have save: "saveCredentials m v account credentials = Inr ?v1"
    using assms by (rule saveCredentials_long)
  have del: "deleteCredentials m ?v1 account = Inr ?v2"
    by (simp add: deleteCredentials_def r)
  have v2: "?v2 = fst (deleteFields ?D account 1)"
    by (simp add: deleteCredentialsHelper_fst r)
  have written: "fmlookup ?v1 (SVC_NAME, chunkAccount account (1 + k)) = Some (take ?M (drop (k * ?M) ?w))"
    if "k * ?M < length ?w" for k
    using that by (rule writeFields_nth)
  have inD: "fmlookup ?D (SVC_NAME, chunkAccount account (1 + k)) \<noteq> None"
    if "k * ?M < length ?w" for k
    using written [OF that] by (simp add: deleteServices_lookup)
  have gone: "fmlookup ?v2 (SVC_NAME, chunkAccount account (1 + k)) = None"
    if k: "k * ?M < length ?w" for k
    unfolding v2
  proof (rule deleteFields_upto)
    show "1 \<le> 1 + k" by simp
    show "\<forall>i. 1 \<le> i \<and> i \<le> 1 + k \<longrightarrow> fmlookup ?D (SVC_NAME, chunkAccount account i) \<noteq> None"
    proof (intro allI impI)
      fix i
      assume i: "1 \<le> i \<and> i \<le> 1 + k"
      then obtain i' where i': "i = 1 + i'" and "i' \<le> k"
        by (metis add_le_cancel_left le_Suc_ex)
      then have "i' * ?M \<le> k * ?M" by simp
      with k have "i' * ?M < length ?w" by linarith
      from inD [OF this] show "fmlookup ?D (SVC_NAME, chunkAccount account i) \<noteq> None"
        unfolding i' .
    qed
  qed
  have fields: "getPassword ?v1 SVC_NAME (chunkAccount account (1 + k)) \<noteq> None
           \<and> getPassword ?v2 SVC_NAME (chunkAccount account (1 + k)) = None"
    if "k * ?M < length ?w" for k
    using written [OF that] gone [OF that] by (simp add: getPassword_def)
  have plain: "getPassword ?v2 s account = None" if "s \<in> set (allServices m)" for s
    using that by (simp add: getPassword_def deleteCredentialsHelper_plain)
  have sub: "getPassword ?v2 s a = None \<or> getPassword ?v2 s a = getPassword v s a" for s a
  proof (cases "\<exists>k. k * ?M < length ?w \<and> (s, a) = (SVC_NAME, chunkAccount account (1 + k))")
    case True
    with gone show ?thesis
      by (auto simp: getPassword_def)
  next
    case False
    then have "fmlookup ?v1 (s, a) = fmlookup ?B (s, a)"
      by (intro writeFields_unwritten) blast
    then have 1: "fmlookup ?v1 (s, a) = None \<or> fmlookup ?v1 (s, a) = fmlookup ?v0 (s, a)"
      by (simp add: deletePassword_def)
    have 2: "fmlookup ?v0 (s, a) = None \<or> fmlookup ?v0 (s, a) = fmlookup v (s, a)"
      by (rule deleteCredentialsHelper_only_removes)
    have 3: "fmlookup ?v2 (s, a) = None \<or> fmlookup ?v2 (s, a) = fmlookup ?v1 (s, a)"
      by (rule deleteCredentialsHelper_only_removes)
    have chain: "x = None \<or> x = d \<Longrightarrow> d = None \<or> d = w \<Longrightarrow> x = None \<or> x = w"
      for x d w :: "string option"
      by auto
    from chain [OF chain [OF 3 1] 2] show ?thesis
      by (simp add: getPassword_def)
  qed
  have first: "getPassword ?v2 SVC_NAME (chunkAccount account 1) = None"
    using fields [of 0] by simp
  have own: "getCredentialsHelper m ?v2 SVC_NAME account = Some None"
    using plain [of SVC_NAME] first
    by (simp add: getCredentialsHelper_def r readFields_first_missing)
  have load: "loadCredentials m ?v2 account True = Some (Inr None)"
    if H: "\<forall>s\<in>set (allServices m).
            (s \<noteq> SVC_NAME \<longrightarrow> getPassword v s (chunkAccount account 1) = None)
            \<and> (endsWith account ''_username'' \<longrightarrow>
                 getPassword v s (replaceFirst account ''_username'' ''_user'') = None)
            \<and> (endsWith account ''_pass'' \<longrightarrow>
                 getPassword v s (replaceFirst account ''_pass'' ''_password'') = None)"
  proof (rule loadCredentials_none [OF r(3)], rule ballI)
    fix s
    assume s: "s \<in> set (allServices m)"
    show "loadHelper m ?v2 account s = Some None"
    proof (rule loadHelper_null)
      show "getPassword ?v2 s account = None"
        using s by (rule plain)
      show "platform m = ''win32'' \<longrightarrow> getPassword ?v2 s (chunkAccount account 1) = None"
        using H s first sub [of s "chunkAccount account 1"] by (cases "s = SVC_NAME") auto
      show "endsWith account ''_username'' \<longrightarrow>
              getPassword ?v2 s (replaceFirst account ''_username'' ''_user'') = None"
        using H s sub [of s "replaceFirst account ''_username'' ''_user''"] by auto
      show "endsWith account ''_pass'' \<longrightarrow>
              getPassword ?v2 s (replaceFirst account ''_pass'' ''_password'') = None"
        using H s sub [of s "replaceFirst account ''_pass'' ''_password''"] by auto
    qed
  qed
  from save del fields plain sub own load show ?thesis
    by blast
qed

lemma delete_removes_all_fields_example:
  "\<exists>v1 v2. saveCredentials (initialize (constructor ''win32'' SVC_NAME) (Inr Keytar)) fmempty
              ''acct'' (replicate 2561 (CHR ''s'')) = Inr v1
     \<and> deleteCredentials (initialize (constructor ''win32'' SVC_NAME) (Inr Keytar)) v1 ''acct'' = Inr v2
     \<and> getPassword v1 SVC_NAME (chunkAccount ''acct'' 2) \<noteq> None
     \<and> getPassword v2 SVC_NAME (chunkAccount ''acct'' 2) = None
     \<and> loadCredentials (initialize (constructor ''win32'' SVC_NAME) (Inr Keytar)) v2 ''acct'' True
         = Some (Inr None)"
proof -
  let ?m = "initialize (constructor ''win32'' SVC_NAME) (Inr Keytar)"
  have l: "WIN32_CRED_MAX_STRING_LENGTH < length (replicate 2561 (CHR ''s''))"
    by (simp add: WIN32_CRED_MAX_STRING_LENGTH_def)
  have k: "1 * WIN32_CRED_MAX_STRING_LENGTH < length (replicate 2561 (CHR ''s'') @ [NUL])"
    by (simp add: WIN32_CRED_MAX_STRING_LENGTH_def)
  have H: "\<forall>s\<in>set (allServices ?m).
            (s \<noteq> SVC_NAME \<longrightarrow> getPassword fmempty s (chunkAccount ''acct'' 1) = None)
            \<and> (endsWith ''acct'' ''_username'' \<longrightarrow>
                 getPassword fmempty s (replaceFirst ''acct'' ''_username'' ''_user'') = None)
            \<and> (endsWith ''acct'' ''_pass'' \<longrightarrow>
                 getPassword fmempty s (replaceFirst ''acct'' ''_pass'' ''_password'') = None)"
    by (simp add: getPassword_def)
  from delete_removes_all_fields [OF refl l, of fmempty "''acct''"]
  obtain v1 v2 where
    "saveCredentials ?m fmempty ''acct'' (replicate 2561 (CHR ''s'')) = Inr v1"
    "deleteCredentials ?m v1 ''acct'' = Inr v2"
    "\<forall>k. k * WIN32_CRED_MAX_STRING_LENGTH < length (replicate 2561 (CHR ''s'') @ [NUL]) \<longrightarrow>
           getPassword v1 SVC_NAME (chunkAccount ''acct'' (1 + k)) \<noteq> None
           \<and> getPassword v2 SVC_NAME (chunkAccount ''acct'' (1 + k)) = None"
    "(\<forall>s\<in>set (allServices ?m).
            (s \<noteq> SVC_NAME \<longrightarrow> getPassword fmempty s (chunkAccount ''acct'' 1) = None)
            \<and> (endsWith ''acct'' ''_username'' \<longrightarrow>
                 getPassword fmempty s (replaceFirst ''acct'' ''_username'' ''_user'') = None)
            \<and> (endsWith ''acct'' ''_pass'' \<longrightarrow>
                 getPassword fmempty s (replaceFirst ''acct'' ''_pass'' ''_password'') = None))
         \<longrightarrow> loadCredentials ?m v2 ''acct'' True = Some (Inr None)"
    by blast
  with H k have "saveCredentials ?m fmempty ''acct'' (replicate 2561 (CHR ''s'')) = Inr v1
     \<and> deleteCredentials ?m v1 ''acct'' = Inr v2
     \<and> getPassword v1 SVC_NAME (chunkAccount ''acct'' (1 + 1)) \<noteq> None
     \<and> getPassword v2 SVC_NAME (chunkAccount ''acct'' (1 + 1)) = None
     \<and> loadCredentials ?m v2 ''acct'' True = Some (Inr None)"
    by blast
  then show ?thesis
    by (simp only: one_add_one) blast
qed


text \<open>
  For a manager of another service the fields are written under the manager's service
  and deleted under \<open>SVC_NAME\<close>, so they all survive the delete.
\<close>

lemma override_delete_keeps_fields:
  assumes "m = initialize (constructor ''win32'' svc) (Inr Keytar)"
    and "svc \<noteq> SVC_NAME"
    and "WIN32_CRED_MAX_STRING_LENGTH < length c"
    and "NUL \<notin> set c"
  shows "loadCredentials m
           (projr (deleteCredentials m (projr (saveCredentials m v account c)) account))
           account optional = Some (Inr (Some c))"
proof -
  let ?M = WIN32_CRED_MAX_STRING_LENGTH
  note r = ready_fields [OF assms(1)]
  let ?v1 = "writeFields (fst (deletePassword (fst (deleteCredentialsHelper m v account True))
                  svc account)) svc account (c @ [NUL]) 1"
  let ?v2 = "fst (deleteCredentialsHelper m ?v1 account False)"
  have save: "saveCredentials m v account c = Inr ?v1"
    using assms(1,3) by (rule saveCredentials_long)
  have del: "deleteCredentials m ?v1 account = Inr ?v2"
    by (simp add: deleteCredentials_def r)
  have plain: "getPassword ?v2 svc account = None"
    using assms(2) by (simp add: getPassword_def deleteCredentialsHelper_other_service r)
  have kept: "\<forall>k. k * ?M < length (c @ [NUL]) \<longrightarrow>
           getPassword ?v2 svc (chunkAccount account (1 + k))
           = Some (take ?M (drop (k * ?M) (c @ [NUL])))"
  proof (intro allI impI)
    fix k
    assume k: "k * ?M < length (c @ [NUL])"
    have "fmlookup ?v2 (svc, chunkAccount account (1 + k))
          = fmlookup ?v1 (svc, chunkAccount account (1 + k))"
      by (simp only: deleteCredentialsHelper_other_service [OF assms(2)] chunkAccount_neq
            if_False simp_thms)
    also have "\<dots> = Some (take ?M (drop (k * ?M) (c @ [NUL])))"
      using k by (rule writeFields_nth)
    finally show "getPassword ?v2 svc (chunkAccount account (1 + k))
           = Some (take ?M (drop (k * ?M) (c @ [NUL])))"
      unfolding getPassword_def .
  qed
  have "readFields ?v2 svc account 1 None = Some (Some ((case None of None \<Rightarrow> [] | Some x \<Rightarrow> x) @ c @ [NUL]))"
    using kept cleanCuts_terminated [OF no_NUL_clean [OF assms(4)]]
    by (intro read_fields_of_value) simp_all
  with plain have "getCredentialsHelper m ?v2 svc account = Some (Some c)"
    by (simp add: getCredentialsHelper_def r)
  with assms(1) have "loadCredentials m ?v2 account optional = Some (Inr (Some c))"
    by (rule loadCredentials_own_service)
  then show ?thesis
    by (simp only: save del sum.sel)
qed

text \<open>
  C7. \<open>deleteCredentials\<close> is to remove every field of a value stored across fields,
  so that a load after it finds nothing. \<open>setCredentialsHelper\<close> writes the fields under
  the manager's service, but the loop of \<open>deleteCredentialsHelper\<close> deletes them under
  \<open>SVC_NAME\<close>. For a manager of the service \<open>Custom\<close> on win32 no field is removed, and
  the load after the delete returns the whole value.
\<close>

theorem delete_misses_fields_of_own_service:
  "loadCredentials (initialize (constructor ''win32'' ''Custom'') (Inr Keytar))
     (projr (deleteCredentials (initialize (constructor ''win32'' ''Custom'') (Inr Keytar))
        (projr (saveCredentials (initialize (constructor ''win32'' ''Custom'') (Inr Keytar)) fmempty
                  ''acct'' (replicate 2561 (CHR ''s''))))
        ''acct''))
     ''acct'' True
   = Some (Inr (Some (replicate 2561 (CHR ''s''))))"
  by (rule override_delete_keeps_fields [OF refl])
     (simp_all add: SVC_NAME_def WIN32_CRED_MAX_STRING_LENGTH_def NUL_def)

subsection \<open>Legacy account names\<close>

lemma endsWith_append: "endsWith s suffix \<longleftrightarrow> (\<exists>p. s = p @ suffix)"
proof
  assume "endsWith s suffix"
  then have "s = take (length s - length suffix) s @ suffix"
    by (simp add: endsWith_def) (metis append_take_drop_id)
  then show "\<exists>p. s = p @ suffix" ..
next
  assume "\<exists>p. s = p @ suffix"
  then show "endsWith s suffix"
    by (auto simp: endsWith_def)
qed

lemma username_not_pass: "endsWith account ''_username'' \<Longrightarrow> \<not> endsWith account ''_pass''"
  by (auto simp: endsWith_append)

lemma loadHelper_on_miss:
  assumes "getCredentialsHelper m v svc account = Some None"
  shows "loadHelper m v account svc =
           Some (if endsWith account ''_username''
                 then getPassword v svc (replaceFirst account ''_username'' ''_user'')
                 else if endsWith account ''_pass''
                 then getPassword v svc (replaceFirst account ''_pass'' ''_password'')
                 else None)"
  using assms username_not_pass [of account] by (simp add: loadHelper_def)

lemma loadHelper_on_hit:
  "getCredentialsHelper m v svc account = Some (Some x) \<Longrightarrow> loadHelper m v account svc = Some (Some x)"
  by (simp add: loadHelper_def)

lemma replaceFirst_at_end:
  assumes "\<forall>i < length p. take (length pat) (drop i (p @ pat)) \<noteq> pat"
  shows "replaceFirst (p @ pat) pat by = p @ by"
  using assms
proof (induction p)
  case Nil
  then show ?case by (cases pat) simp_all
next
  case (Cons c p)
  from Cons.prems have "take (length pat) (drop 0 ((c # p) @ pat)) \<noteq> pat"
    by blast
  then have here: "take (length pat) (c # p @ pat) \<noteq> pat" by simp
  have "\<forall>i < length p. take (length pat) (drop i (p @ pat)) \<noteq> pat"
  proof (intro allI impI)
    fix i assume "i < length p"
    then have "Suc i < length (c # p)" by simp
    with Cons.prems have "take (length pat) (drop (Suc i) ((c # p) @ pat)) \<noteq> pat" by blast
    then show "take (length pat) (drop i (p @ pat)) \<noteq> pat" by simp
  qed
  with Cons.IH have "replaceFirst (p @ pat) pat by = p @ by" by blast
  with here show ?case by simp
qed

lemma save_writes_own_names_only:
  assumes "saveCredentials m v account credentials = Inr v'"
    and "fmlookup v' k \<noteq> None" and "fmlookup v' k \<noteq> fmlookup v k"
  shows "k = (service m, account) \<or> (\<exists>i. k = (service m, chunkAccount account i))"
proof (rule ccontr)
  assume n: "\<not> (k = (service m, account) \<or> (\<exists>i. k = (service m, chunkAccount account i)))"
  let ?v1 = "fst (deleteCredentialsHelper m v account True)"
  from assms(1) have v': "v' = setCredentialsHelper m ?v1 (service m) account credentials"
    by (auto simp: saveCredentials_def split: option.splits)
  from n have "fmlookup v' k = fmlookup ?v1 k"
    unfolding v'
    by (auto simp: setCredentialsHelper_def setPassword_def deletePassword_def writeFields_other)
  moreover have "fmlookup ?v1 k = None \<or> fmlookup ?v1 k = fmlookup v k"
    by (rule deleteCredentialsHelper_only_removes)
  ultimately show False
    using assms(2,3) by auto
qed


text \<open>
  C9. \<open>loadHelper\<close> retries a missed account that ends with \<open>_username\<close> or \<open>_pass\<close>
  (\<open>loadHelper_on_miss\<close>), and \<open>saveCredentials\<close> writes under the account's own name
  and its field names only (\<open>save_writes_own_names_only\<close>). But the retried name is
  formed by \<open>replace\<close>, which rewrites the first occurrence of the old suffix and not
  the one at the end that \<open>endsWith\<close> tested; the two are the same only when the old
  suffix occurs nowhere before the end (\<open>replaceFirst_at_end\<close>). For the account
  \<open>zosmf_test_pass_pass\<close> the load looks under \<open>zosmf_test_password_pass\<close> and misses the
  entry stored under \<open>zosmf_test_pass_password\<close>.
\<close>

theorem legacy_retry_first_occurrence:
  "endsWith ''zosmf_test_pass_pass'' ''_pass''
   \<and> replaceFirst ''zosmf_test_pass_pass'' ''_pass'' ''_password'' = ''zosmf_test_password_pass''
   \<and> loadCredentials (initialize (constructor ''linux'' ''Zowe'') (Inr Keytar))
        (fmupd (''Zowe'', ''zosmf_test_pass_password'') ''secret'' fmempty)
        ''zosmf_test_pass_pass'' True = Some (Inr None)
   \<and> loadCredentials (initialize (constructor ''linux'' ''Zowe'') (Inr Keytar))
        (fmupd (''Zowe'', ''zosmf_test_password_pass'') ''other'' fmempty)
        ''zosmf_test_pass_pass'' True = Some (Inr (Some ''other''))"
  by (simp add: loadCredentials_def checkForKeytar_def initialize_def constructor_def SVC_NAME_def
        loadHelper_def getCredentialsHelper_def getPassword_def endsWith_def)

subsection \<open>What a delete does not reach\<close>

text \<open>
  \<open>deleteCredentialsHelper\<close> removes fields under \<open>SVC_NAME\<close> only. A first field of the
  account under an earlier service stays, and the load after the delete returns it.
\<close>

lemma historical_field_is_loaded_after_delete:
  assumes "m = initialize (constructor ''win32'' SVC_NAME) (Inr Keytar)"
    and "WIN32_CRED_MAX_STRING_LENGTH < length c"
    and "getPassword v ''@zowe/cli'' (chunkAccount account 1) = Some t"
    and "endsWith t [NUL]"
    and "\<not> endsWith account ''_username''" and "\<not> endsWith account ''_pass''"
  shows "loadCredentials m
           (projr (deleteCredentials m (projr (saveCredentials m v account c)) account))
           account optional = Some (Inr (Some (butlast t)))"
proof -
  note r = ready_fields [OF assms(1)]
  let ?v0 = "fst (deleteCredentialsHelper m v account True)"
  let ?v1 = "writeFields (fst (deletePassword ?v0 SVC_NAME account)) SVC_NAME account (c @ [NUL]) 1"
  let ?D = "fst (deleteServices ?v1 account False (allServices m) False)"
  let ?v2 = "fst (deleteCredentialsHelper m ?v1 account False)"
  have z: "''@zowe/cli'' \<noteq> SVC_NAME"
    by (simp add: SVC_NAME_def)
  have save: "saveCredentials m v account c = Inr ?v1"
    using assms(1,2) by (rule saveCredentials_long)
  have del: "deleteCredentials m ?v1 account = Inr ?v2"
    by (simp add: deleteCredentials_def r)
  have v2: "?v2 = fst (deleteFields ?D account 1)"
    by (simp add: deleteCredentialsHelper_fst r)
  have "fmlookup ?v1 (SVC_NAME, chunkAccount account 1) \<noteq> None"
    by (simp add: writeFields_first)
  then have "\<forall>i. 1 \<le> i \<and> i \<le> 1 \<longrightarrow> fmlookup ?D (SVC_NAME, chunkAccount account i) \<noteq> None"
    by (auto simp: deleteServices_lookup le_antisym)
  then have own_field: "getPassword ?v2 SVC_NAME (chunkAccount account 1) = None"
    unfolding v2 getPassword_def by (rule deleteFields_upto) simp
  have plain: "getPassword ?v2 s account = None" if "s \<in> set (allServices m)" for s
    using that by (simp add: getPassword_def deleteCredentialsHelper_plain)
  have own: "loadHelper m ?v2 account SVC_NAME = Some None"
    using plain [of SVC_NAME] own_field assms(5,6) by (intro loadHelper_null) (simp_all add: r)
  have "fmlookup ?v2 (''@zowe/cli'', chunkAccount account 1)
        = fmlookup ?v1 (''@zowe/cli'', chunkAccount account 1)"
    by (simp only: deleteCredentialsHelper_other_service [OF z] chunkAccount_neq if_False simp_thms)
  also have "\<dots> = fmlookup ?v0 (''@zowe/cli'', chunkAccount account 1)"
    using z by (simp add: writeFields_other deletePassword_def)
  also have "\<dots> = fmlookup v (''@zowe/cli'', chunkAccount account 1)"
    by (simp only: deleteCredentialsHelper_other_service [OF z] chunkAccount_neq if_False simp_thms)
  finally have field: "getPassword ?v2 ''@zowe/cli'' (chunkAccount account 1) = Some t"
    using assms(3) by (simp add: getPassword_def)
  have "readFields ?v2 ''@zowe/cli'' account 1 None = Some (Some t)"
    using field assms(4) by (subst readFields.simps) simp
  then have "getCredentialsHelper m ?v2 ''@zowe/cli'' account = Some (Some (butlast t))"
    using plain [of "''@zowe/cli''"] assms(4) by (simp add: getCredentialsHelper_def r stripNul_def)
  then have hist: "loadHelper m ?v2 account ''@zowe/cli'' = Some (Some (butlast t))"
    by (rule loadHelper_on_hit)
  have "loadServices m ?v2 account (allServices m) = Some (Some (butlast t))"
    using own hist by (simp add: r)
  then have "loadCredentials m ?v2 account optional = Some (Inr (Some (butlast t)))"
    by (simp add: loadCredentials_def r)
  then show ?thesis
    by (simp only: save del sum.sel)
qed

lemma historical_field_example:
  "loadCredentials (initialize (constructor ''win32'' SVC_NAME) (Inr Keytar))
     (projr (deleteCredentials (initialize (constructor ''win32'' SVC_NAME) (Inr Keytar))
        (projr (saveCredentials (initialize (constructor ''win32'' SVC_NAME) (Inr Keytar))
                  (fmupd (''@zowe/cli'', ''acct-1'') [CHR ''z'', NUL] fmempty)
                  ''acct'' (replicate 2561 (CHR ''s''))))
        ''acct''))
     ''acct'' True
   = Some (Inr (Some ''z''))"
proof -
  have "loadCredentials (initialize (constructor ''win32'' SVC_NAME) (Inr Keytar))
     (projr (deleteCredentials (initialize (constructor ''win32'' SVC_NAME) (Inr Keytar))
        (projr (saveCredentials (initialize (constructor ''win32'' SVC_NAME) (Inr Keytar))
                  (fmupd (''@zowe/cli'', ''acct-1'') [CHR ''z'', NUL] fmempty)
                  ''acct'' (replicate 2561 (CHR ''s''))))
        ''acct''))
     ''acct'' True
   = Some (Inr (Some (butlast [CHR ''z'', NUL])))"
    by (rule historical_field_is_loaded_after_delete [OF refl])
       (simp_all add: WIN32_CRED_MAX_STRING_LENGTH_def getPassword_def chunkAccount_def
          showNat.simps digitChar_def endsWith_def)
  then show ?thesis by simp
qed

section \<open>Properties of Config\<close>

subsection \<open>The merged view\<close>

lemma map_of_mergeInto:
  "map_of (mergeInto hi lo) n =
     (case map_of hi n of
        None \<Rightarrow> None
      | Some h \<Rightarrow> Some (case map_of lo n of None \<Rightarrow> h | Some l \<Rightarrow> mergeNode h l))"
  by (induction hi) (auto split: option.splits)

lemma map_of_filter_missing:
  "map_of (filter (\<lambda>(k, _). map_of hi k = None) lo) n
   = (if map_of hi n = None then map_of lo n else None)"
  by (induction lo) auto

lemma map_of_mergeEntries:
  "map_of (mergeEntries hi lo) k = (case map_of hi k of Some x \<Rightarrow> Some x | None \<Rightarrow> map_of lo k)"
  by (auto simp: mergeEntries_def map_add_def map_of_filter_missing split: option.splits)

lemma map_of_mergeProfiles:
  "map_of (mergeProfiles hi lo) n =
     (case map_of hi n of
        None \<Rightarrow> map_of lo n
      | Some h \<Rightarrow> Some (case map_of lo n of None \<Rightarrow> h | Some l \<Rightarrow> mergeNode h l))"
  by (auto simp: mergeProfiles_def map_add_def map_of_filter_missing map_of_mergeInto
      split: option.splits)

lemma pprofiles_mergeNode: "pprofiles (mergeNode h l) = mergeProfiles (pprofiles h) (pprofiles l)"
  by (cases h) (simp add: mergeProfiles_def)

lemma pproperties_mergeNode:
  "pproperties (mergeNode h l) = mergeEntries (pproperties h) (pproperties l)"
  by (cases h) simp

lemma findProfile_merge:
  "findProfile (mergeProfiles hi lo) names =
     (case findProfile hi names of
        None \<Rightarrow> findProfile lo names
      | Some h \<Rightarrow> Some (case findProfile lo names of None \<Rightarrow> h | Some l \<Rightarrow> mergeNode h l))"
proof (induction hi names arbitrary: lo rule: findProfile.induct)
  case (1 ps)
  then show ?case by simp
next
  case (2 ps n)
  then show ?case by (simp add: map_of_mergeProfiles split: option.splits)
next
  case (3 ps n m ms)
  show ?case
  proof (cases "map_of ps n")
    case None
    then show ?thesis
      by (simp add: map_of_mergeProfiles)
  next
    case (Some h)
    show ?thesis
    proof (cases "map_of lo n")
      case None
      with Some show ?thesis
        by (simp add: map_of_mergeProfiles split: option.splits)
    next
      case l: (Some l)
      from 3 [OF Some, of "pprofiles l"] Some l show ?thesis
        by (simp add: map_of_mergeProfiles pprofiles_mergeNode split: option.splits)
    qed
  qed
qed

lemma getProperty_merge:
  "getProperty (mergeProfiles hi lo) names key =
     (case getProperty hi names key of Some x \<Rightarrow> Some x | None \<Rightarrow> getProperty lo names key)"
  by (simp add: getProperty_def findProfile_merge pproperties_mergeNode map_of_mergeEntries
      split: option.splits)

lemma findProfile_empty: "findProfile [] names = None"
  by (induction "[] :: (string \<times> ProfileNode) list" names rule: findProfile.induct) simp_all

lemma getProperty_empty: "getProperty [] names key = None"
  by (simp add: getProperty_def findProfile_empty)


text \<open>
  C2. Whatever files exist, a property of the merged view that \<open>Config.load\<close> gives has
  the value of the first layer that defines it, in the order project-user, project,
  global-user, global; a layer without a file defines nothing, and a layer with a file
  defines what its document does. So a property that only the last existing layer
  defines is seen in the merged view. The same holds for the entries of \<open>defaults\<close>.
\<close>

theorem merged_view_follows_precedence:
  "getProperty (mergedProfiles (load files projectUser project globalUser global)) names key =
     (case getProperty (profiles (properties (loadLayer projectUser (files projectUser)))) names key of
        Some x \<Rightarrow> Some x
      | None \<Rightarrow>
     (case getProperty (profiles (properties (loadLayer project (files project)))) names key of
        Some x \<Rightarrow> Some x
      | None \<Rightarrow>
     (case getProperty (profiles (properties (loadLayer globalUser (files globalUser)))) names key of
        Some x \<Rightarrow> Some x
      | None \<Rightarrow>
      getProperty (profiles (properties (loadLayer global (files global)))) names key)))
   \<and> getProperty (profiles (properties (loadLayer p None))) names key = None
   \<and> getProperty (profiles (properties (loadLayer p (Some props)))) names key
       = getProperty (profiles props) names key
   \<and> map_of (mergedDefaults (load files projectUser project globalUser global)) t =
     (case map_of (defaults (properties (loadLayer projectUser (files projectUser)))) t of
        Some x \<Rightarrow> Some x
      | None \<Rightarrow>
     (case map_of (defaults (properties (loadLayer project (files project)))) t of
        Some x \<Rightarrow> Some x
      | None \<Rightarrow>
     (case map_of (defaults (properties (loadLayer globalUser (files globalUser)))) t of
        Some x \<Rightarrow> Some x
      | None \<Rightarrow>
      map_of (defaults (properties (loadLayer global (files global)))) t)))"
  by (simp add: mergedProfiles_def mergedDefaults_def load_def getProperty_merge getProperty_empty
      map_of_mergeEntries loadLayer_def emptySkeleton_def split: option.splits)

subsection \<open>Setting a value\<close>

lemma splitDots_nonempty: "splitDots s \<noteq> []"
  by (induction s) (auto split: list.splits)

lemma getPath_fieldsOf:
  "getPath node (seg # rest) =
     (case map_of (fieldsOf node) seg of None \<Rightarrow> None | Some child \<Rightarrow> getPath child rest)"
  by (cases node) (simp_all add: fieldsOf_def)

lemma getPath_childOf:
  "rest \<noteq> [] \<Longrightarrow> getPath (childOf node seg) rest = getPath node (seg # rest)"
  by (cases rest) (auto simp: getPath_fieldsOf [of node] childOf_def split: option.splits)

lemma getPath_setPath:
  "segs \<noteq> [] \<Longrightarrow> getPath (setPath node segs v) segs = Some (stored (getPath node segs) v)"
proof (induction node segs v rule: setPath.induct)
  case (1 node v)
  then show ?case by simp
next
  case (2 node seg v)
  have "getPath node [seg] = map_of (fieldsOf node) seg"
    by (simp add: getPath_fieldsOf split: option.splits)
  then show ?case
    by (simp add: update_conv')
next
  case (3 node seg "next" rest v)
  then have "getPath (setPath (childOf node seg) (next # rest) v) (next # rest)
             = Some (stored (getPath (childOf node seg) (next # rest)) v)"
    by simp
  also have "getPath (childOf node seg) (next # rest) = getPath node (seg # next # rest)"
    by (rule getPath_childOf) simp
  finally show ?case
    by (simp add: update_conv')
qed


text \<open>
  C8 (amended). With an active layer, after \<open>set\<close> the value at the dotted path in the
  active layer is: the array passed, if an array was passed; else the array that was
  there with the coerced value appended, if an array was there; else the coerced value.
  The coercion turns \<open>"true"\<close> and \<open>"false"\<close> into booleans and a string of the integer
  pattern into a number, and keeps every other string. The other layers stay as they were.
\<close>

theorem set_stores_coerced_value:
  assumes "activeLayerIndex c < length (layers c)"
  shows "getPath (properties (layerActive (set_config c dottedPath v))) (splitDots dottedPath)
         = Some (case v of
                   JArray xs \<Rightarrow> JArray xs
                 | _ \<Rightarrow> (case getPath (properties (layerActive c)) (splitDots dottedPath) of
                           Some (JArray ys) \<Rightarrow> JArray (ys @ [coerce v])
                         | _ \<Rightarrow> coerce v))
       \<and> coerce (JString ''true'') = JBool True
       \<and> coerce (JString ''false'') = JBool False
       \<and> (isInteger s \<longrightarrow> coerce (JString s) = JNumber (parseInt s))
       \<and> (s \<noteq> ''true'' \<and> s \<noteq> ''false'' \<and> \<not> isInteger s \<longrightarrow> coerce (JString s) = JString s)
       \<and> (\<forall>i. i < length (layers c) \<and> i \<noteq> activeLayerIndex c \<longrightarrow>
              layers (set_config c dottedPath v) ! i = layers c ! i)"
proof -
  have p: "properties (layerActive (set_config c dottedPath v))
           = setPath (properties (layerActive c)) (splitDots dottedPath) v"
    using assms by (simp add: set_config_def layerActive_def)
  have 1: "getPath (properties (layerActive (set_config c dottedPath v))) (splitDots dottedPath)
         = Some (stored (getPath (properties (layerActive c)) (splitDots dottedPath)) v)"
    unfolding p by (rule getPath_setPath) (rule splitDots_nonempty)
  have 2: "isInteger s \<Longrightarrow> s \<noteq> ''true'' \<and> s \<noteq> ''false''"
    by (auto simp: isInteger_def isDigit_def)
  show ?thesis
    using 1 2 by (auto simp: stored_def coerce_def set_config_def)
qed

theorem set_stores_coerced_value_witness:
  "getPath (properties (layerActive (set_config
       \<lparr> layers = [\<lparr> path = ''my_app.config.user.json'', exists = True, properties = JObject [] \<rparr>],
         activeLayerIndex = 0 \<rparr>
       ''profiles.fruit.profiles.apple.properties.price'' (JString ''2''))))
     (splitDots ''profiles.fruit.profiles.apple.properties.price'')
   = Some (JNumber 2)"
proof -
  let ?c = "\<lparr> layers = [\<lparr> path = ''my_app.config.user.json'', exists = True, properties = JObject [] \<rparr>],
         activeLayerIndex = 0 \<rparr>"
  have a: "activeLayerIndex ?c < length (layers ?c)" by simp
  have i: "coerce (JString ''2'') = JNumber 2"
    by (simp add: coerce_def isInteger_def isDigit_def parseInt_def parseDigits_def digitValue_def)
  show ?thesis
    using set_stores_coerced_value [OF a, of "''profiles.fruit.profiles.apple.properties.price''" "JString ''2''"]
    by (simp add: i layerActive_def)
qed


text \<open>
  The claim as stated fails in its last part: a scalar set at a path that holds an array
  is appended and does not replace the array, which is what the repository's test
  "should append to array value in config" expects.
\<close>

theorem scalar_on_array_appends_counterexample:
  "getPath (properties (layerActive
      (set_config
        (set_config
           \<lparr> layers = [\<lparr> path = ''my_app.config.user.json'', exists = True, properties = JObject [] \<rparr>],
             activeLayerIndex = 0 \<rparr>
           ''profiles.fruit.properties.tags'' (JArray []))
        ''profiles.fruit.properties.tags'' (JString ''sweet''))))
     (splitDots ''profiles.fruit.properties.tags'')
   = Some (JArray [JString ''sweet''])
   \<and> getPath (properties (layerActive
        (set_config
           \<lparr> layers = [\<lparr> path = ''my_app.config.user.json'', exists = True, properties = JObject [] \<rparr>],
             activeLayerIndex = 0 \<rparr>
           ''profiles.fruit.properties.tags'' (JArray []))))
     (splitDots ''profiles.fruit.properties.tags'')
   = Some (JArray [])
   \<and> JArray [JString ''sweet''] \<noteq> coerce (JString ''sweet'')"
  by (simp add: set_config_def layerActive_def childOf_def fieldsOf_def stored_def coerce_def
        isInteger_def isDigit_def)

end
